theory Spec2Isabelle
  imports Complex_Main
begin

section \<open>JavaScript numbers\<close>

text \<open>
  A JavaScript number is an IEEE 754 double. The model keeps a finite double as the real
  number it denotes, next to the two infinities and \<open>NaN\<close>. The exact result of an
  arithmetic operation, and the exact value of a decimal string, is rounded to the nearest
  double, a tie going to the even significand and a result beyond the largest double to an
  infinity: the \<open>Number value for x\<close> of ECMAScript.

  Negative zero is not told apart from zero; nothing below returns the one where
  JavaScript returns a number different from the other.
\<close>

datatype js_number = Fin real | PosInf | NegInf | NaN

subsection \<open>Rounding to double precision\<close>

text \<open>The nearest integer, a tie going to the even one.\<close>

definition round_half_even :: "real \<Rightarrow> int" where
  "round_half_even x =
     (let f = \<lfloor>x\<rfloor> in
      if x - of_int f < 1 / 2 then f
      else if 1 / 2 < x - of_int f then f + 1
      else if even f then f else f + 1)"

text \<open>
  The binary exponent of a magnitude: from 1 upwards the number of halvings that bring it
  below 2, at most 1023; below 1 minus the number of doublings that bring it to 1, at most
  1022 (the subnormal numbers share the exponent \<open>-1022\<close>).
\<close>

fun exponent_up :: "nat \<Rightarrow> real \<Rightarrow> int" where
  "exponent_up 0 x = 0"
| "exponent_up (Suc k) x = (if x < 2 then 0 else exponent_up k (x / 2) + 1)"

fun exponent_down :: "nat \<Rightarrow> real \<Rightarrow> int" where
  "exponent_down 0 x = 0"
| "exponent_down (Suc k) x = (if 1 \<le> x then 0 else exponent_down k (x * 2) - 1)"

definition binade :: "real \<Rightarrow> int" where
  "binade x = (if 1 \<le> \<bar>x\<bar> then exponent_up 1023 \<bar>x\<bar> else exponent_down 1022 \<bar>x\<bar>)"

text \<open>
  The distance between neighbouring doubles at a magnitude (52 binary places below its
  exponent), and the multiple of that distance nearest to a real.
\<close>

definition quantum :: "real \<Rightarrow> real" where
  "quantum x = 2 powi (binade x - 52)"

definition nearest :: "real \<Rightarrow> real" where
  "nearest x = of_int (round_half_even (x / quantum x)) * quantum x"

text \<open>
  The least magnitude beyond the largest double, and the smallest normal double (below it
  the doubles are evenly spaced).
\<close>

definition double_limit :: real where
  "double_limit = 2 ^ 1024"


definition to_double :: "real \<Rightarrow> js_number" where
  "to_double x =
     (let y = nearest x in
      if double_limit \<le> y then PosInf else if y \<le> - double_limit then NegInf else Fin y)"

text \<open>The reals that are doubles.\<close>

definition is_double :: "real \<Rightarrow> bool" where
  "is_double x = (to_double x = Fin x)"

subsection \<open>Operations on numbers\<close>

fun isFinite :: "js_number \<Rightarrow> bool" where
  "isFinite (Fin x) = True"
| "isFinite v = False"

fun isNaN :: "js_number \<Rightarrow> bool" where
  "isNaN NaN = True"
| "isNaN v = False"

text \<open>The comparison \<open>\<le>\<close> of JavaScript, false whenever an operand is \<open>NaN\<close>.\<close>

fun js_le :: "js_number \<Rightarrow> js_number \<Rightarrow> bool" where
  "js_le NaN y = False"
| "js_le x NaN = False"
| "js_le NegInf y = True"
| "js_le x PosInf = True"
| "js_le PosInf y = False"
| "js_le x NegInf = False"
| "js_le (Fin x) (Fin y) = (x \<le> y)"

text \<open>
  \<open>Math.round\<close>: the nearest integer, a tie going up. The result for a double is a
  double, so nothing is rounded a second time.
\<close>

fun Math_round :: "js_number \<Rightarrow> js_number" where
  "Math_round (Fin x) = Fin (of_int \<lfloor>x + 1 / 2\<rfloor>)"
| "Math_round v = v"

fun Math_max :: "js_number \<Rightarrow> js_number \<Rightarrow> js_number" where
  "Math_max NaN y = NaN"
| "Math_max x NaN = NaN"
| "Math_max PosInf y = PosInf"
| "Math_max x PosInf = PosInf"
| "Math_max NegInf y = y"
| "Math_max x NegInf = x"
| "Math_max (Fin x) (Fin y) = Fin (max x y)"

fun Math_min :: "js_number \<Rightarrow> js_number \<Rightarrow> js_number" where
  "Math_min NaN y = NaN"
| "Math_min x NaN = NaN"
| "Math_min NegInf y = NegInf"
| "Math_min x NegInf = NegInf"
| "Math_min PosInf y = y"
| "Math_min x PosInf = x"
| "Math_min (Fin x) (Fin y) = Fin (min x y)"

fun js_negate :: "js_number \<Rightarrow> js_number" where
  "js_negate (Fin x) = Fin (- x)"
| "js_negate PosInf = NegInf"
| "js_negate NegInf = PosInf"
| "js_negate NaN = NaN"

fun js_add :: "js_number \<Rightarrow> js_number \<Rightarrow> js_number" where
  "js_add NaN y = NaN"
| "js_add x NaN = NaN"
| "js_add PosInf NegInf = NaN"
| "js_add NegInf PosInf = NaN"
| "js_add PosInf y = PosInf"
| "js_add x PosInf = PosInf"
| "js_add NegInf y = NegInf"
| "js_add x NegInf = NegInf"
| "js_add (Fin x) (Fin y) = to_double (x + y)"

definition js_sub :: "js_number \<Rightarrow> js_number \<Rightarrow> js_number" where
  "js_sub a b = js_add a (js_negate b)"

fun js_mul :: "js_number \<Rightarrow> js_number \<Rightarrow> js_number" where
  "js_mul NaN y = NaN"
| "js_mul x NaN = NaN"
| "js_mul (Fin x) (Fin y) = to_double (x * y)"
| "js_mul (Fin x) PosInf = (if x = 0 then NaN else if 0 < x then PosInf else NegInf)"
| "js_mul (Fin x) NegInf = (if x = 0 then NaN else if 0 < x then NegInf else PosInf)"
| "js_mul PosInf (Fin y) = (if y = 0 then NaN else if 0 < y then PosInf else NegInf)"
| "js_mul NegInf (Fin y) = (if y = 0 then NaN else if 0 < y then NegInf else PosInf)"
| "js_mul PosInf PosInf = PosInf"
| "js_mul PosInf NegInf = NegInf"
| "js_mul NegInf PosInf = NegInf"
| "js_mul NegInf NegInf = PosInf"

text \<open>Division by a positive finite constant (the source divides by 2).\<close>

fun js_div_by :: "js_number \<Rightarrow> real \<Rightarrow> js_number" where
  "js_div_by (Fin x) d = to_double (x / d)"
| "js_div_by v d = v"

text \<open>
  \<open>Math.pow\<close> for an integer exponent (the executor passes the attempt index).
  ECMAScript leaves the accuracy of \<open>Math.pow\<close> to the implementation; the model
  returns the nearest double, which is the power itself whenever that is a double. A zero
  base with a negative exponent gives \<open>Infinity\<close>.
\<close>

definition Math_pow :: "js_number \<Rightarrow> int \<Rightarrow> js_number" where
  "Math_pow b n =
     (if n = 0 then Fin 1
      else case b of
             NaN \<Rightarrow> NaN
           | Fin x \<Rightarrow>
               if x = 0 then (if 0 < n then Fin 0 else PosInf) else to_double (x powi n)
           | PosInf \<Rightarrow> if 0 < n then PosInf else Fin 0
           | NegInf \<Rightarrow> if 0 < n then (if even n then PosInf else NegInf) else Fin 0)"

text \<open>Truthiness of a number: every number but zero and \<open>NaN\<close>.\<close>

fun truthy :: "js_number \<Rightarrow> bool" where
  "truthy (Fin x) = (x \<noteq> 0)"
| "truthy NaN = False"
| "truthy v = True"

section \<open>Retry executor (retry utility with exponential backoff)\<close>

text \<open>
  The retry utility wraps an asynchronous operation. Awaiting is sequential, so the model
  is explicit state passing: the wrapped operation is a function from the state of its own
  environment to an outcome and the next state, and the executor's own effects
  (\<open>sleep\<close>, \<open>Math.random\<close>) act on a world record around that state.

  Delays are JavaScript numbers; attempt counters, HTTP statuses and \<open>maxRetries\<close>
  are integers. The two predicates of the options are total functions, so a predicate that
  throws is outside the model. The wall-clock field \<open>totalTime\<close> of the result and
  the development-only console output are not modelled.
\<close>

subsection \<open>Values the executor handles\<close>

text \<open>An \<open>Error\<close> instance: whether it is a \<open>TypeError\<close>, and its message.\<close>

record js_Error =
  isTypeError :: bool
  message :: string

text \<open>
  Whatever the operation throws: an \<open>Error\<close> instance, or any other value, which is
  represented by what \<open>String(value)\<close> gives.
\<close>

datatype thrown = ErrorObj js_Error | NonError string

text \<open>
  A fetch \<open>Response\<close>; \<open>ok\<close> is the getter of the Fetch standard, true exactly for
  the statuses 200 to 299.
\<close>

record Response =
  status :: int
  statusText :: string

definition ok :: "Response \<Rightarrow> bool" where
  "ok r = (200 \<le> status r \<and> status r \<le> 299)"

text \<open>What the operation resolves with: \<open>result instanceof Response\<close> or anything else.\<close>

datatype 'a resolved = IsResponse Response | Plain 'a

datatype 'a outcome = Resolves "'a resolved" | Rejects thrown

type_synonym ('s, 'a) operation = "'s \<Rightarrow> 'a outcome \<times> 's"

record RetryOptions =
  maxRetries :: "int option"
  initialDelay :: "js_number option"
  maxDelay :: "js_number option"
  backoffMultiplier :: "js_number option"
  jitter :: "bool option"
  isRetryable :: "(thrown \<Rightarrow> bool) option"
  isRetryableResponse :: "(Response \<Rightarrow> bool) option"
  errorMessagePrefix :: "string option"

record 'a RetryResult =
  success :: bool
  data :: "'a resolved option"
  error :: "js_Error option"
  attempts :: int

text \<open>
  The world of one execution: the state of the operation's environment, the delays passed
  to \<open>sleep\<close> so far (oldest first), and the stream of values \<open>Math.random()\<close>
  returns (finite numbers, as reals) with the number of values already drawn.
\<close>

record 's world =
  op_state :: 's
  slept :: "js_number list"
  rng :: "nat \<Rightarrow> real"
  rng_pos :: nat

definition sleep :: "js_number \<Rightarrow> 's world \<Rightarrow> 's world" where
  "sleep ms w = w\<lparr>slept := slept w @ [ms]\<rparr>"

definition Math_random :: "'s world \<Rightarrow> real \<times> 's world" where
  "Math_random w = (rng w (rng_pos w), w\<lparr>rng_pos := Suc (rng_pos w)\<rparr>)"

subsection \<open>Delay computation\<close>

text \<open>The literal \<open>0.2\<close> denotes the double nearest to one fifth.\<close>

definition double_0_2 :: js_number where
  "double_0_2 = to_double 0.2"

definition calculateDelay ::
  "int \<Rightarrow> js_number \<Rightarrow> js_number \<Rightarrow> js_number \<Rightarrow> bool \<Rightarrow> 's world
     \<Rightarrow> js_number \<times> 's world" where
  "calculateDelay attempt initialDelay' maxDelay' backoffMultiplier' jitter' w =
     (let exponentialDelay = js_mul initialDelay' (Math_pow backoffMultiplier' attempt);
          delay = Math_min exponentialDelay maxDelay'
      in if jitter' then
           (case Math_random w of (r, w') \<Rightarrow>
              let jitterAmount = js_mul delay double_0_2;
                  jitterValue = js_mul (js_sub (js_mul (Fin r) (Fin 2)) (Fin 1)) jitterAmount
              in (Math_max (Fin 0) (js_add delay jitterValue), w'))
         else (delay, w))"

subsection \<open>Default retryability predicates\<close>

text \<open>\<open>String.prototype.includes\<close>: the pattern occurs as a contiguous substring.\<close>

fun starts_with :: "string \<Rightarrow> string \<Rightarrow> bool" where
  "starts_with s [] = True"
| "starts_with [] (p # ps) = False"
| "starts_with (c # cs) (p # ps) = (c = p \<and> starts_with cs ps)"

fun str_includes :: "string \<Rightarrow> string \<Rightarrow> bool" where
  "str_includes [] p = starts_with [] p"
| "str_includes (c # cs) p = (starts_with (c # cs) p \<or> str_includes cs p)"

definition defaultIsRetryable :: "thrown \<Rightarrow> bool" where
  "defaultIsRetryable err =
     (case err of
        NonError v \<Rightarrow> False
      | ErrorObj e \<Rightarrow>
          if isTypeError e \<and> str_includes (message e) ''fetch'' then True
          else if str_includes (message e) ''timeout'' \<or> str_includes (message e) ''Timeout'' then True
          else if str_includes (message e) ''network'' \<or> str_includes (message e) ''Network'' then True
          else False)"

definition defaultIsRetryableResponse :: "Response \<Rightarrow> bool" where
  "defaultIsRetryableResponse response = (status response \<ge> 500 \<or> status response = 429)"

subsection \<open>The retry loop\<close>

text \<open>The options after destructuring, every absent field replaced by its default.\<close>

record settings =
  s_maxRetries :: int
  s_initialDelay :: js_number
  s_maxDelay :: js_number
  s_backoffMultiplier :: js_number
  s_jitter :: bool
  s_isRetryable :: "thrown \<Rightarrow> bool"
  s_isRetryableResponse :: "Response \<Rightarrow> bool"
  s_errorMessagePrefix :: string

definition or_default :: "'a option \<Rightarrow> 'a \<Rightarrow> 'a" where
  "or_default v d = (case v of None \<Rightarrow> d | Some x \<Rightarrow> x)"

definition destructure :: "RetryOptions \<Rightarrow> settings" where
  "destructure options =
     \<lparr> s_maxRetries = or_default (maxRetries options) 3,
       s_initialDelay = or_default (initialDelay options) (Fin 1000),
       s_maxDelay = or_default (maxDelay options) (Fin 10000),
       s_backoffMultiplier = or_default (backoffMultiplier options) (Fin 2),
       s_jitter = or_default (jitter options) True,
       s_isRetryable = or_default (isRetryable options) defaultIsRetryable,
       s_isRetryableResponse = or_default (isRetryableResponse options) defaultIsRetryableResponse,
       s_errorMessagePrefix = or_default (errorMessagePrefix options) ''Retry failed'' \<rparr>"

text \<open>Decimal rendering of an integer, as a template literal interpolates it.\<close>

fun show_nat :: "nat \<Rightarrow> string" where
  "show_nat n =
     (if n < 10 then [char_of (48 + n)]
      else show_nat (n div 10) @ [char_of (48 + n mod 10)])"

definition show_int :: "int \<Rightarrow> string" where
  "show_int i = (if i < 0 then CHR ''-'' # show_nat (nat (- i)) else show_nat (nat i))"

definition new_Error :: "string \<Rightarrow> js_Error" where
  "new_Error msg = \<lparr> isTypeError = False, message = msg \<rparr>"

text \<open>\<open>error instanceof Error ? error : new Error(String(error))\<close>\<close>

definition as_Error :: "thrown \<Rightarrow> js_Error" where
  "as_Error err = (case err of ErrorObj e \<Rightarrow> e | NonError v \<Rightarrow> new_Error v)"

definition invoke :: "('s, 'a) operation \<Rightarrow> 's world \<Rightarrow> 'a outcome \<times> 's world" where
  "invoke fn w = (case fn (op_state w) of (out, s') \<Rightarrow> (out, w\<lparr>op_state := s'\<rparr>))"

definition backoff :: "settings \<Rightarrow> int \<Rightarrow> 's world \<Rightarrow> 's world" where
  "backoff cfg attempt w =
     (case calculateDelay attempt (s_initialDelay cfg) (s_maxDelay cfg)
             (s_backoffMultiplier cfg) (s_jitter cfg) w of
        (delay, w') \<Rightarrow> sleep delay w')"

text \<open>
  The \<open>for\<close> loop of \<open>retry\<close>, from a given attempt index, with the \<open>lastError\<close>
  variable. The last equation branch is the code after the loop.
\<close>

function retry_loop ::
  "settings \<Rightarrow> ('s, 'a) operation \<Rightarrow> int \<Rightarrow> js_Error option \<Rightarrow> 's world
     \<Rightarrow> 'a RetryResult \<times> 's world" where
  "retry_loop cfg fn attempt lastError w =
     (if attempt \<le> s_maxRetries cfg then
        (case invoke fn w of
           (Resolves result, w1) \<Rightarrow>
             (case result of
                IsResponse r \<Rightarrow>
                  if \<not> ok r \<and> s_isRetryableResponse cfg r then
                    if attempt \<ge> s_maxRetries cfg then
                      (\<lparr> success = False, data = None,
                         error = Some (new_Error (s_errorMessagePrefix cfg @ '' after ''
                                   @ show_int (attempt + 1) @ '' attempts: ''
                                   @ show_int (status r) @ '' '' @ statusText r)),
                         attempts = attempt + 1 \<rparr>, w1)
                    else retry_loop cfg fn (attempt + 1) lastError (backoff cfg attempt w1)
                  else
                    (\<lparr> success = True, data = Some result, error = None,
                       attempts = attempt + 1 \<rparr>, w1)
              | Plain v \<Rightarrow>
                  (\<lparr> success = True, data = Some result, error = None,
                     attempts = attempt + 1 \<rparr>, w1))
         | (Rejects err, w1) \<Rightarrow>
             if \<not> s_isRetryable cfg err then
               (\<lparr> success = False, data = None, error = Some (as_Error err),
                  attempts = attempt + 1 \<rparr>, w1)
             else if attempt \<ge> s_maxRetries cfg then
               (\<lparr> success = False, data = None, error = Some (as_Error err),
                  attempts = attempt + 1 \<rparr>, w1)
             else retry_loop cfg fn (attempt + 1) (Some (as_Error err)) (backoff cfg attempt w1))
      else
        (\<lparr> success = False, data = None,
           error = Some (case lastError of Some e \<Rightarrow> e | None \<Rightarrow> new_Error ''Unknown error''),
           attempts = s_maxRetries cfg + 1 \<rparr>, w))"
  by pat_completeness auto
termination
  by (relation "measure (\<lambda>(cfg, fn, attempt, lastError, w). nat (s_maxRetries cfg + 1 - attempt))")
     auto

declare retry_loop.simps [simp del]

definition retry :: "('s, 'a) operation \<Rightarrow> RetryOptions \<Rightarrow> 's world \<Rightarrow> 'a RetryResult \<times> 's world" where
  "retry fn options w = retry_loop (destructure options) fn 0 None w"

subsection \<open>Observing the executor\<close>

text \<open>
  The condition under which a resolved value sends the loop into another round: it is a
  \<open>Response\<close>, not ok, and the response predicate flags it.
\<close>

definition retryable_response :: "settings \<Rightarrow> 'a resolved \<Rightarrow> bool" where
  "retryable_response cfg result =
     (case result of IsResponse r \<Rightarrow> \<not> ok r \<and> s_isRetryableResponse cfg r | Plain v \<Rightarrow> False)"

text \<open>
  A call counter around an operation, as a test spy keeps one: the wrapped operation
  behaves as the original on the first component of the state and counts its own
  invocations in the second.
\<close>

definition counted :: "('s, 'a) operation \<Rightarrow> ('s \<times> nat, 'a) operation" where
  "counted fn = (\<lambda>(s, n). case fn s of (out, s') \<Rightarrow> (out, (s', Suc n)))"

definition with_counter :: "'s world \<Rightarrow> nat \<Rightarrow> ('s \<times> nat) world" where
  "with_counter w n =
     \<lparr> op_state = (op_state w, n), slept = slept w, rng = rng w, rng_pos = rng_pos w \<rparr>"

definition calls :: "('s \<times> nat) world \<Rightarrow> nat" where
  "calls w = snd (op_state w)"

text \<open>
  A scripted operation, as a mock built from once-only values and a default: the state is
  the queue of once-only outcomes still to come.
\<close>

definition mock :: "'a outcome \<Rightarrow> ('a outcome list, 'a) operation" where
  "mock dflt queue = (case queue of [] \<Rightarrow> (dflt, []) | out # rest \<Rightarrow> (out, rest))"

text \<open>Fixtures: the error, options and initial world the test suite uses.\<close>

definition network_error :: js_Error where
  "network_error = \<lparr> isTypeError = False, message = ''Network error'' \<rparr>"

definition validation_error :: js_Error where
  "validation_error = \<lparr> isTypeError = False, message = ''Validation error'' \<rparr>"

definition no_options :: RetryOptions where
  "no_options =
     \<lparr> maxRetries = None, initialDelay = None, maxDelay = None, backoffMultiplier = None,
       jitter = None, isRetryable = None, isRetryableResponse = None,
       errorMessagePrefix = None \<rparr>"

definition test_options :: RetryOptions where
  "test_options = no_options\<lparr> maxRetries := Some 2, initialDelay := Some (Fin 100) \<rparr>"

definition fresh_world :: "'s \<Rightarrow> 's world" where
  "fresh_world s = \<lparr> op_state = s, slept = [], rng = (\<lambda>n. 1 / 2), rng_pos = 0 \<rparr>"

text \<open>
  Fixtures for the delays: the rejection and the options of the backoff test of the suite,
  options with jitter and a small initial delay, and a world in which every draw is 0.
\<close>

definition fetch_failed :: js_Error where
  "fetch_failed = \<lparr> isTypeError = True, message = ''fetch failed'' \<rparr>"




section \<open>Nutrient value normalizer\<close>

text \<open>
  The normalizer turns loosely typed nutrition values into a canonical record. Its string
  branch uses regular expressions, so the model has three layers: JavaScript values and
  numbers, a backtracking matcher for the regular-expression constructs the source uses, and
  the source functions on top of them.
\<close>

subsection \<open>JavaScript values\<close>

text \<open>A string is its sequence of UTF-16 code units.\<close>

type_synonym ustring = "nat list"

definition ascii :: "string \<Rightarrow> ustring" where
  "ascii s = map of_char s"

datatype js_value = Undefined | Null | Num js_number | Str ustring | OtherValue

subsection \<open>Strings\<close>

definition is_digit :: "nat \<Rightarrow> bool" where
  "is_digit c = (48 \<le> c \<and> c \<le> 57)"

text \<open>
  White space and line terminators, the code units \<open>trim\<close> strips and \<open>\s\<close> matches:
  TAB, LF, VT, FF, CR, space, no-break space, U+1680, U+2000 to U+200A, U+2028, U+2029,
  U+202F, U+205F, U+3000 and U+FEFF.
\<close>

definition white_space :: "nat list" where
  "white_space =
     [9, 10, 11, 12, 13, 32, 160, 5760, 8192, 8193, 8194, 8195, 8196, 8197, 8198, 8199,
      8200, 8201, 8202, 8232, 8233, 8239, 8287, 12288, 65279]"

definition is_space :: "nat \<Rightarrow> bool" where
  "is_space c = (c \<in> set white_space)"

definition trim :: "ustring \<Rightarrow> ustring" where
  "trim s = rev (dropWhile is_space (rev (dropWhile is_space s)))"

text \<open>\<open>value.replace(/,/g, '.')\<close>: every comma becomes a period.\<close>

definition replace_commas :: "ustring \<Rightarrow> ustring" where
  "replace_commas s = map (\<lambda>c. if c = 44 then 46 else c) s"

text \<open>
  \<open>Number(string)\<close> on signed decimal literals without exponent, and on the empty
  string: the double nearest to the exact decimal value, or an infinity. (Beyond twenty
  significant digits ECMAScript also allows an implementation to round the decimal to
  twenty digits first; the model does not.) Any other string gives \<open>NaN\<close> here; the
  strings with exponents, radix prefixes, \<open>Infinity\<close> or surrounding white space, on
  which JavaScript gives a number, never reach \<open>Number\<close> in the normalizer (lemmas
  \<open>Number_decimal_at\<close> and \<open>Number_number_at\<close>).
\<close>

definition digits_value :: "ustring \<Rightarrow> nat" where
  "digits_value ds = foldl (\<lambda>acc d. acc * 10 + (d - 48)) 0 ds"

definition Number_unsigned :: "ustring \<Rightarrow> js_number" where
  "Number_unsigned s =
     (let ip = takeWhile is_digit s in
      case dropWhile is_digit s of
        [] \<Rightarrow> if ip = [] then NaN else to_double (real (digits_value ip))
      | c # fp \<Rightarrow>
          if c = 46 \<and> list_all is_digit fp \<and> (ip \<noteq> [] \<or> fp \<noteq> [])
          then to_double (real (digits_value ip) + real (digits_value fp) / 10 ^ length fp)
          else NaN)"

definition Number_string :: "ustring \<Rightarrow> js_number" where
  "Number_string s =
     (case s of
        [] \<Rightarrow> Fin 0
      | c # cs \<Rightarrow>
          if c = 43 then Number_unsigned cs
          else if c = 45 then js_negate (Number_unsigned cs)
          else Number_unsigned s)"

text \<open>\<open>Number\<close> of a match-array entry; an unset group is \<open>undefined\<close>.\<close>

definition Number_of :: "ustring option \<Rightarrow> js_number" where
  "Number_of v = (case v of None \<Rightarrow> NaN | Some s \<Rightarrow> Number_string s)"

subsection \<open>Regular expressions\<close>

text \<open>
  The constructs the source's patterns use: character sets (a single character is a
  one-element set), concatenation, alternation with the left branch tried first, the
  greedy quantifiers \<open>?\<close> and \<open>*\<close>, and capture groups. \<open>+\<close> and \<open>{1,4}\<close> are
  built from these.
\<close>

datatype regex =
    Eps
  | Cls "nat list"
  | Seq regex regex
  | Alt regex regex
  | Opt regex
  | Star regex
  | Cap nat regex

definition Plus :: "regex \<Rightarrow> regex" where
  "Plus r = Seq r (Star r)"

fun at_most :: "nat \<Rightarrow> regex \<Rightarrow> regex" where
  "at_most 0 r = Eps"
| "at_most (Suc n) r = Opt (Seq r (at_most n r))"

definition one_to_four :: "regex \<Rightarrow> regex" where
  "one_to_four r = Seq r (at_most 3 r)"

fun lit :: "ustring \<Rightarrow> regex" where
  "lit [] = Eps"
| "lit (c # cs) = Seq (Cls [c]) (lit cs)"

text \<open>
  \<open>Canonicalize\<close> under the \<open>i\<close> flag, on ASCII letters. The patterns contain ASCII
  letters only, and no code unit from 128 up canonicalizes to an ASCII one, so on them this
  agrees with the full case folding.
\<close>

definition canon :: "bool \<Rightarrow> nat \<Rightarrow> nat" where
  "canon ignoreCase c = (if ignoreCase \<and> 97 \<le> c \<and> c \<le> 122 then c - 32 else c)"

text \<open>
  The matcher state is the input still to read and the captures made so far (latest
  first). The matcher returns every way the pattern can match at the start of the input, in
  the order backtracking tries them. An iteration of a quantifier that consumes nothing is
  discarded, as the language prescribes.
\<close>

type_synonym mstate = "ustring \<times> (nat \<times> ustring) list"

fun ms :: "bool \<Rightarrow> regex \<Rightarrow> mstate \<Rightarrow> mstate list" where
  "ms i Eps st = [st]"
| "ms i (Cls xs) (s, cs) =
     (case s of
        [] \<Rightarrow> []
      | c # rest \<Rightarrow> if canon i c \<in> set (map (canon i) xs) then [(rest, cs)] else [])"
| "ms i (Seq a b) st = concat (map (ms i b) (ms i a st))"
| "ms i (Alt a b) st = ms i a st @ ms i b st"
| "ms i (Opt a) st =
     filter (\<lambda>st'. length (fst st') < length (fst st)) (ms i a st) @ [st]"
| "ms i (Star a) st =
     concat (map (\<lambda>st'. if length (fst st') < length (fst st) then ms i (Star a) st' else [])
                 (ms i a st)) @ [st]"
| "ms i (Cap n a) (s, cs) =
     map (\<lambda>(s', cs'). (s', (n, take (length s - length s') s) # cs')) (ms i a (s, cs))"

text \<open>The result of \<open>String.prototype.match\<close> for a pattern without the \<open>g\<close> flag.\<close>

record regex_match =
  matched :: ustring
  groups :: "(nat \<times> ustring) list"

definition group :: "regex_match \<Rightarrow> nat \<Rightarrow> ustring option" where
  "group m n = map_of (groups m) n"

definition match_here :: "bool \<Rightarrow> regex \<Rightarrow> ustring \<Rightarrow> regex_match option" where
  "match_here i r s =
     (case ms i r (s, []) of
        [] \<Rightarrow> None
      | (s', cs) # others \<Rightarrow> Some \<lparr> matched = take (length s - length s') s, groups = cs \<rparr>)"

text \<open>The leftmost start position wins; the end of the input is a start position too.\<close>

fun match :: "bool \<Rightarrow> regex \<Rightarrow> ustring \<Rightarrow> regex_match option" where
  "match i r [] = match_here i r []"
| "match i r (c # cs) =
     (case match_here i r (c # cs) of Some m \<Rightarrow> Some m | None \<Rightarrow> match i r cs)"

subsection \<open>The patterns of the source\<close>

definition digit :: regex where
  "digit = Cls [48, 49, 50, 51, 52, 53, 54, 55, 56, 57]"

definition space :: regex where
  "space = Cls white_space"

text \<open>\<open>[0-9]+(?:\.[0-9]+)?\<close>\<close>

definition decimal :: regex where
  "decimal = Seq (Plus digit) (Opt (Seq (Cls [46]) (Plus digit)))"

text \<open>\<open>(?:-|\<dots>|\<dots>|to)\<close> with the en dash U+2013 and the em dash U+2014\<close>

definition separator :: regex where
  "separator = Alt (Cls [45]) (Alt (Cls [8211]) (Alt (Cls [8212]) (lit (ascii ''to''))))"

text \<open>\<open>/([0-9]+(?:\.[0-9]+)?)\s*(?:-|\<dots>|\<dots>|to)\s*([0-9]+(?:\.[0-9]+)?)/i\<close>\<close>

definition range_re :: regex where
  "range_re =
     Seq (Cap 1 decimal) (Seq (Star space) (Seq separator (Seq (Star space) (Cap 2 decimal))))"

text \<open>\<open>/[-+]?[0-9]*\.?[0-9]+/\<close>\<close>

definition number_re :: regex where
  "number_re = Seq (Opt (Cls [45, 43])) (Seq (Star digit) (Seq (Opt (Cls [46])) (Plus digit)))"

text \<open>
  The number part built into both patterns of \<open>extractNutritionFromText\<close>:
  \<open>([0-9]{1,4}(?:[.,][0-9]+)?(?:\s*(?:-|\<dots>|\<dots>|to)\s*[0-9]{1,4}(?:[.,][0-9]+)?)?)\<close>
\<close>

definition short_decimal :: regex where
  "short_decimal = Seq (one_to_four digit) (Opt (Seq (Cls [46, 44]) (Plus digit)))"

definition quantity :: regex where
  "quantity =
     Cap 1 (Seq short_decimal
              (Opt (Seq (Star space) (Seq separator (Seq (Star space) short_decimal)))))"

text \<open>\<open>key + "\\s*[:-]?\\s*(\<dots>)"\<close>; the keys are plain words, so they stand for themselves.\<close>

definition key_re :: "string \<Rightarrow> regex" where
  "key_re key =
     Seq (lit (ascii key)) (Seq (Star space) (Seq (Opt (Cls [58, 45])) (Seq (Star space) quantity)))"

text \<open>\<open>"(\<dots>)\\s*(?:" + keys.join('|') + ")"\<close>\<close>

fun alternatives :: "string list \<Rightarrow> regex" where
  "alternatives [] = Eps"
| "alternatives [k] = lit (ascii k)"
| "alternatives (k # ks) = Alt (lit (ascii k)) (alternatives ks)"

definition unit_re :: "string list \<Rightarrow> regex" where
  "unit_re keys = Seq quantity (Seq (Star space) (alternatives keys))"

subsection \<open>parseNutritionNumber\<close>

text \<open>The fallback of the string branch: the first number in the string, or 0.\<close>

definition first_number :: "ustring \<Rightarrow> js_number" where
  "first_number s =
     (case match False number_re s of
        Some m \<Rightarrow> Math_max (Fin 0) (Math_round (Number_string (matched m)))
      | None \<Rightarrow> Fin 0)"

definition parseNutritionNumber :: "js_value \<Rightarrow> js_number" where
  "parseNutritionNumber v =
     (case v of
        Undefined \<Rightarrow> Fin 0
      | Null \<Rightarrow> Fin 0
      | Num n \<Rightarrow> if isFinite n then Math_max (Fin 0) (Math_round n) else Fin 0
      | Str text \<Rightarrow>
          (let s = trim (replace_commas text) in
           case match True range_re s of
             Some rangeMatch \<Rightarrow>
               (let a = Number_of (group rangeMatch 1);
                    b = Number_of (group rangeMatch 2)
                in if \<not> isNaN a \<and> \<not> isNaN b
                   then Math_max (Fin 0) (Math_round (js_div_by (js_add a b) 2))
                   else first_number s)
           | None \<Rightarrow> first_number s)
      | OtherValue \<Rightarrow> Fin 0)"

subsection \<open>normalizeNutritionData, extractNutritionFromText, mergeNutrition\<close>

record NormalizedNutrition =
  calories :: js_number
  protein :: js_number
  carbs :: js_number
  fat :: js_number
  fiber :: "js_number option"

text \<open>A loosely typed record; reading a missing property gives \<open>undefined\<close>.\<close>

type_synonym raw_record = "string \<rightharpoonup> js_value"

definition get_prop :: "raw_record \<Rightarrow> string \<Rightarrow> js_value" where
  "get_prop raw key = (case raw key of None \<Rightarrow> Undefined | Some v \<Rightarrow> v)"

text \<open>The nullish coalescing operator \<open>??\<close>.\<close>

definition nullish :: "js_value \<Rightarrow> js_value \<Rightarrow> js_value" where
  "nullish a b = (case a of Undefined \<Rightarrow> b | Null \<Rightarrow> b | _ \<Rightarrow> a)"

definition normalizeNutritionData :: "raw_record \<Rightarrow> NormalizedNutrition" where
  "normalizeNutritionData raw =
     \<lparr> calories = parseNutritionNumber
         (nullish (get_prop raw ''calories'') (nullish (get_prop raw ''kalori'')
           (nullish (get_prop raw ''total_calories'') (get_prop raw ''estimasi_kalori'')))),
       protein = parseNutritionNumber
         (nullish (get_prop raw ''protein'') (nullish (get_prop raw ''protein_g'')
           (nullish (get_prop raw ''protein_grams'') (get_prop raw ''protein_gram'')))),
       carbs = parseNutritionNumber
         (nullish (get_prop raw ''carbs'') (nullish (get_prop raw ''karbohidrat'')
           (nullish (get_prop raw ''karbohidrat_g'') (nullish (get_prop raw ''carbs_grams'')
             (get_prop raw ''carbs_g''))))),
       fat = parseNutritionNumber
         (nullish (get_prop raw ''fat'') (nullish (get_prop raw ''lemak'')
           (nullish (get_prop raw ''lemak_g'') (nullish (get_prop raw ''fat_grams'')
             (get_prop raw ''fat_g''))))),
       fiber = Some (parseNutritionNumber
         (nullish (get_prop raw ''fiber'') (nullish (get_prop raw ''serat'') (get_prop raw ''fiber_g'')))) \<rparr>"

text \<open>
  The inner \<open>searchNumber\<close>: the keys in order with the keyword-first pattern, then the
  number-first pattern over all keys; \<open>None\<close> is \<open>null\<close>. A match always sets group 1 to
  a non-empty string, which is what the test \<open>m && m[1]\<close> asks for.
\<close>

definition nonempty_group1 :: "regex_match option \<Rightarrow> ustring option" where
  "nonempty_group1 m =
     (case m of
        None \<Rightarrow> None
      | Some r \<Rightarrow> (case group r 1 of None \<Rightarrow> None | Some g \<Rightarrow> if g = [] then None else Some g))"

fun search_keys :: "ustring \<Rightarrow> string list \<Rightarrow> js_number option" where
  "search_keys text [] = None"
| "search_keys text (key # keys) =
     (case nonempty_group1 (match True (key_re key) text) of
        Some g \<Rightarrow> Some (parseNutritionNumber (Str g))
      | None \<Rightarrow> search_keys text keys)"

definition searchNumber :: "ustring \<Rightarrow> string list \<Rightarrow> js_number option" where
  "searchNumber text keys =
     (case search_keys text keys of
        Some n \<Rightarrow> Some n
      | None \<Rightarrow>
          (case nonempty_group1 (match True (unit_re keys) text) of
             Some g \<Rightarrow> Some (parseNutritionNumber (Str g))
           | None \<Rightarrow> None))"

text \<open>
  The source also computes \<open>cleanedText\<close>, the text with every run of three backticks
  replaced by a space, and never uses it: the searches read \<open>text\<close>.
\<close>

definition extractNutritionFromText :: "ustring \<Rightarrow> NormalizedNutrition" where
  "extractNutritionFromText text =
     (let calories' = searchNumber text [''calories'', ''kalori'', ''kcal''];
          protein' = searchNumber text [''protein'', ''protein_g'', ''proteingrams''];
          carbs' = searchNumber text [''carbs'', ''carbohydrate'', ''karbohidrat'', ''carbs_g''];
          fat' = searchNumber text [''fat'', ''lemak'', ''fat_g'']
      in \<lparr> calories = or_default calories' (Fin 0),
           protein = or_default protein' (Fin 0),
           carbs = or_default carbs' (Fin 0),
           fat = or_default fat' (Fin 0),
           fiber = None \<rparr>)"

definition isNutritionEmpty :: "NormalizedNutrition \<Rightarrow> bool" where
  "isNutritionEmpty nutrition =
     (calories nutrition = Fin 0 \<and> protein nutrition = Fin 0
      \<and> carbs nutrition = Fin 0 \<and> fat nutrition = Fin 0)"

text \<open>The operator \<open>||\<close> on numbers, and on the optional \<open>fiber\<close> field.\<close>

definition js_or :: "js_number \<Rightarrow> js_number \<Rightarrow> js_number" where
  "js_or a b = (if truthy a then a else b)"

definition js_or_opt :: "js_number option \<Rightarrow> js_number option \<Rightarrow> js_number option" where
  "js_or_opt a b = (case a of None \<Rightarrow> b | Some x \<Rightarrow> if truthy x then a else b)"

definition mergeNutrition :: "NormalizedNutrition \<Rightarrow> NormalizedNutrition \<Rightarrow> NormalizedNutrition" where
  "mergeNutrition primary fallback =
     \<lparr> calories = js_or (calories primary) (calories fallback),
       protein = js_or (protein primary) (protein fallback),
       carbs = js_or (carbs primary) (carbs fallback),
       fat = js_or (fat primary) (fat fallback),
       fiber = js_or_opt (fiber primary) (fiber fallback) \<rparr>"

subsection \<open>The parsing algorithm of the specification\<close>

text \<open>
  The specification describes the string branch of \<open>parseNutritionNumber\<close> without
  regular expressions: replace the commas, look for the first range \<open>A sep B\<close>, otherwise
  for the first number. The definitions below follow its words with plain scanners; the
  refinement theorem of claim C3 shows that the source's patterns compute the same.
\<close>

text \<open>The string starts with a character of the given kind.\<close>

definition starts :: "(nat \<Rightarrow> bool) \<Rightarrow> ustring \<Rightarrow> bool" where
  "starts P u = (case u of [] \<Rightarrow> False | c # t \<Rightarrow> P c)"

text \<open>
  The fraction at the head of a string: a period and the digits after it, when a digit
  follows the period; empty otherwise.
\<close>

definition fraction_at :: "ustring \<Rightarrow> ustring" where
  "fraction_at r =
     (case r of
        c # d # r' \<Rightarrow> if c = 46 \<and> is_digit d then c # takeWhile is_digit (d # r') else []
      | _ \<Rightarrow> [])"

text \<open>The unsigned decimal at the head of a string: digits, with optional decimals.\<close>

definition decimal_at :: "ustring \<Rightarrow> ustring option" where
  "decimal_at s =
     (if starts is_digit s
      then Some (takeWhile is_digit s @ fraction_at (dropWhile is_digit s))
      else None)"

text \<open>
  The separator at the head of a string: a hyphen, an en dash, an em dash, or the word
  \<open>to\<close> in any case.
\<close>

definition separator_at :: "ustring \<Rightarrow> ustring option" where
  "separator_at s =
     (case s of
        [] \<Rightarrow> None
      | c # t \<Rightarrow>
          if c = 45 \<or> c = 8211 \<or> c = 8212 then Some [c]
          else if c = 116 \<or> c = 84 then
            (case t of [] \<Rightarrow> None | d # t' \<Rightarrow> if d = 111 \<or> d = 79 then Some [c, d] else None)
          else None)"

text \<open>What follows optional white space, a separator and optional white space.\<close>

definition after_separator :: "ustring \<Rightarrow> ustring option" where
  "after_separator s =
     (let r = dropWhile is_space s in
      case separator_at r of
        None \<Rightarrow> None
      | Some sep \<Rightarrow> Some (dropWhile is_space (drop (length sep) r)))"

text \<open>The range \<open>A sep B\<close> at the head of a string, as its two end points.\<close>

definition range_at :: "ustring \<Rightarrow> (ustring \<times> ustring) option" where
  "range_at s =
     (case decimal_at s of
        None \<Rightarrow> None
      | Some a \<Rightarrow>
          (case after_separator (drop (length a) s) of
             None \<Rightarrow> None
           | Some r \<Rightarrow>
               (case decimal_at r of
                  None \<Rightarrow> None
                | Some b \<Rightarrow> Some (a, b))))"

text \<open>The first position of a string, from the left, at which a scanner succeeds.\<close>

fun find_first :: "(ustring \<Rightarrow> 'a option) \<Rightarrow> ustring \<Rightarrow> 'a option" where
  "find_first f [] = f []"
| "find_first f (c # t) = (case f (c # t) of Some x \<Rightarrow> Some x | None \<Rightarrow> find_first f t)"

text \<open>
  The signed or unsigned integer or decimal at the head of a string: an optional sign,
  digits, and a fraction, with at least one digit overall.
\<close>

definition is_sign :: "nat \<Rightarrow> bool" where
  "is_sign c = (c = 45 \<or> c = 43)"

definition number_at :: "ustring \<Rightarrow> ustring option" where
  "number_at s =
     (let sign = (if starts is_sign s then take 1 s else []);
          t = drop (length sign) s;
          ip = takeWhile is_digit t;
          fr = fraction_at (dropWhile is_digit t)
      in if ip = [] \<and> fr = [] then None else Some (sign @ ip @ fr))"

text \<open>\<open>max(0, round((A + B) / 2))\<close> for the two end points of a range.\<close>

definition midpoint :: "ustring \<Rightarrow> ustring \<Rightarrow> js_number" where
  "midpoint a b =
     Math_max (Fin 0) (Math_round (js_div_by (js_add (Number_string a) (Number_string b)) 2))"

definition spec_parse_string :: "ustring \<Rightarrow> js_number" where
  "spec_parse_string text =
     (let s = replace_commas text in
      case find_first range_at s of
        Some (a, b) \<Rightarrow> midpoint a b
      | None \<Rightarrow>
          (case find_first number_at s of
             Some x \<Rightarrow> Math_max (Fin 0) (Math_round (Number_string x))
           | None \<Rightarrow> Fin 0))"

subsection \<open>Notions used in the proofs about the matcher\<close>

text \<open>
  Membership in a character set under the flag; the candidate rests of a greedy star over a
  character set, in backtracking order; the rest after a fraction; parts of the two
  patterns; strings of white space.
\<close>

definition in_class :: "bool \<Rightarrow> nat list \<Rightarrow> nat \<Rightarrow> bool" where
  "in_class i xs c = (canon i c \<in> set (map (canon i) xs))"

fun star_rests :: "(nat \<Rightarrow> bool) \<Rightarrow> ustring \<Rightarrow> ustring list" where
  "star_rests P [] = [[]]"
| "star_rests P (c # t) = (if P c then star_rests P t @ [c # t] else [c # t])"

definition after_fraction :: "ustring \<Rightarrow> ustring" where
  "after_fraction r = drop (length (fraction_at r)) r"

definition digit_or_dot :: "nat \<Rightarrow> bool" where
  "digit_or_dot c = (is_digit c \<or> c = 46)"

definition range_tail2 :: regex where
  "range_tail2 = Seq (Star space) (Cap 2 decimal)"

definition range_tail1 :: regex where
  "range_tail1 = Seq separator range_tail2"

definition number_tail :: regex where
  "number_tail = Seq (Opt (Cls [46])) (Plus digit)"

definition number_body :: regex where
  "number_body = Seq (Star digit) number_tail"

definition wsp :: "ustring \<Rightarrow> bool" where
  "wsp w = (\<forall>c \<in> set w. is_space c)"

subsection \<open>Notions the properties are stated with\<close>

text \<open>
  The first alias of a list whose value in the record is neither \<open>undefined\<close> nor
  \<open>null\<close>, or \<open>undefined\<close> when there is none.
\<close>

fun first_present :: "raw_record \<Rightarrow> string list \<Rightarrow> js_value" where
  "first_present raw [] = Undefined"
| "first_present raw (key # keys) =
     (case get_prop raw key of
        Undefined \<Rightarrow> first_present raw keys
      | Null \<Rightarrow> first_present raw keys
      | v \<Rightarrow> v)"

definition indonesian_raw :: raw_record where
  "indonesian_raw =
     [''kalori'' \<mapsto> Num (Fin 200), ''protein_g'' \<mapsto> Num (Fin 20),
      ''karbohidrat'' \<mapsto> Num (Fin 30), ''lemak'' \<mapsto> Num (Fin 10)]"

text \<open>
  A nutrition record none of whose fields is \<open>NaN\<close>; every record of the data model,
  whose fields are non-negative integers, is one. A field that is zero or, for the optional
  \<open>fiber\<close>, missing.
\<close>

definition no_NaN_fields :: "NormalizedNutrition \<Rightarrow> bool" where
  "no_NaN_fields n =
     (\<not> isNaN (calories n) \<and> \<not> isNaN (protein n) \<and> \<not> isNaN (carbs n) \<and> \<not> isNaN (fat n)
      \<and> fiber n \<noteq> Some NaN)"

definition zero_or_absent :: "js_number option \<Rightarrow> bool" where
  "zero_or_absent v = (v = None \<or> v = Some (Fin 0))"

definition partial_primary :: NormalizedNutrition where
  "partial_primary =
     \<lparr> calories = Fin 200, protein = Fin 0, carbs = Fin 30, fat = Fin 0, fiber = None \<rparr>"

definition full_fallback :: NormalizedNutrition where
  "full_fallback =
     \<lparr> calories = Fin 300, protein = Fin 20, carbs = Fin 35, fat = Fin 10, fiber = Some (Fin 4) \<rparr>"

definition zero_nutrition :: NormalizedNutrition where
  "zero_nutrition =
     \<lparr> calories = Fin 0, protein = Fin 0, carbs = Fin 0, fat = Fin 0, fiber = None \<rparr>"

section \<open>Properties of rounding to double precision\<close>

subsection \<open>Rounding to an integer and the binary exponent\<close>

lemma rhe_cases: "round_half_even x = \<lfloor>x\<rfloor> \<or> round_half_even x = \<lfloor>x\<rfloor> + 1"
  by (simp add: round_half_even_def Let_def)

lemma rhe_of_int [simp]: "round_half_even (of_int n) = n"
  by (simp add: round_half_even_def)

lemma rhe_mono:
  assumes "x \<le> y"
  shows "round_half_even x \<le> round_half_even y"
proof (cases "\<lfloor>x\<rfloor> = \<lfloor>y\<rfloor>")
  case True
  with assms show ?thesis by (auto simp: round_half_even_def Let_def)
next
  case False
  with assms have "\<lfloor>x\<rfloor> < \<lfloor>y\<rfloor>" using floor_mono[OF assms] by linarith
  moreover have "round_half_even x \<le> \<lfloor>x\<rfloor> + 1" using rhe_cases[of x] by auto
  moreover have "\<lfloor>y\<rfloor> \<le> round_half_even y" using rhe_cases[of y] by auto
  ultimately show ?thesis by linarith
qed

lemma rhe_minus: "round_half_even (- x) = - round_half_even x"
proof (cases "x = of_int \<lfloor>x\<rfloor>")
  case True
  then obtain n where "x = of_int n" ..
  then have "- x = of_int (- n)" by simp
  then show ?thesis using \<open>x = of_int n\<close> by (simp only: rhe_of_int)
next
  case False
  then have "\<lceil>x\<rceil> = \<lfloor>x\<rfloor> + 1" by (simp add: ceiling_altdef)
  then have f: "\<lfloor>- x\<rfloor> = - \<lfloor>x\<rfloor> - 1" by (simp add: ceiling_def)
  have "of_int \<lfloor>x\<rfloor> \<le> x" by simp
  with False have p: "0 < x - of_int \<lfloor>x\<rfloor>" by linarith
  show ?thesis
    unfolding round_half_even_def Let_def f using p by auto
qed

lemma rhe_frac:
  "round_half_even x =
     (if x - of_int \<lfloor>x\<rfloor> < 1 / 2 then \<lfloor>x\<rfloor>
      else if 1 / 2 < x - of_int \<lfloor>x\<rfloor> then \<lfloor>x\<rfloor> + 1
      else if even \<lfloor>x\<rfloor> then \<lfloor>x\<rfloor> else \<lfloor>x\<rfloor> + 1)"
  by (simp add: round_half_even_def Let_def)


lemma exponent_up_range: "0 \<le> exponent_up k x \<and> exponent_up k x \<le> int k"
  by (induction k arbitrary: x) auto

lemma exponent_up_lower: "1 \<le> x \<Longrightarrow> 2 powi (exponent_up k x) \<le> x"
proof (induction k arbitrary: x)
  case (Suc k)
  show ?case
  proof (cases "x < 2")
    case True with Suc.prems show ?thesis by simp
  next
    case False
    then have "2 powi (exponent_up k (x / 2)) \<le> x / 2" using Suc.IH[of "x / 2"] by simp
    then have "2 powi (exponent_up k (x / 2)) * 2 \<le> x" by simp
    moreover have "(2::real) powi (exponent_up k (x / 2) + 1) = 2 powi (exponent_up k (x / 2)) * 2"
      by (simp add: power_int_add)
    ultimately show ?thesis using False by simp
  qed
qed simp

lemma exponent_up_upper: "exponent_up k x < int k \<Longrightarrow> x < 2 powi (exponent_up k x + 1)"
proof (induction k arbitrary: x)
  case (Suc k)
  show ?case
  proof (cases "x < 2")
    case True then show ?thesis by simp
  next
    case False
    with Suc.prems have "exponent_up k (x / 2) < int k" by simp
    from Suc.IH[OF this] have "x / 2 < 2 powi (exponent_up k (x / 2) + 1)" .
    then have "x < 2 powi (exponent_up k (x / 2) + 1) * 2" by simp
    moreover have "(2::real) powi (exponent_up k (x / 2) + 1 + 1) = 2 powi (exponent_up k (x / 2) + 1) * 2"
      by (simp add: power_int_add)
    ultimately show ?thesis using False by simp
  qed
qed simp

lemma exponent_down_range: "- int k \<le> exponent_down k x \<and> exponent_down k x \<le> 0"
proof (induction k arbitrary: x)
  case (Suc k)
  from Suc[of "x * 2"] show ?case by auto
qed simp

lemma exponent_down_lower: "- int k < exponent_down k x \<Longrightarrow> 2 powi (exponent_down k x) \<le> x"
proof (induction k arbitrary: x)
  case (Suc k)
  show ?case
  proof (cases "1 \<le> x")
    case True then show ?thesis by simp
  next
    case False
    with Suc.prems have "- int k < exponent_down k (x * 2)" by simp
    from Suc.IH[OF this] have "2 powi (exponent_down k (x * 2)) \<le> x * 2" .
    moreover have "(2::real) powi (exponent_down k (x * 2) - 1) = 2 powi (exponent_down k (x * 2)) / 2"
      by (simp add: power_int_diff)
    ultimately show ?thesis using False by simp
  qed
qed simp

lemma exponent_down_upper: "x < 2 \<Longrightarrow> x < 2 powi (exponent_down k x + 1)"
proof (induction k arbitrary: x)
  case (Suc k)
  show ?case
  proof (cases "1 \<le> x")
    case True with Suc.prems show ?thesis by simp
  next
    case False
    then have "x * 2 < 2" by simp
    from Suc.IH[OF this] have "x * 2 < 2 powi (exponent_down k (x * 2) + 1)" .
    moreover have "(2::real) powi (exponent_down k (x * 2) + 1) = 2 powi (exponent_down k (x * 2)) * 2"
      by (simp add: power_int_add)
    ultimately show ?thesis using False by simp
  qed
qed simp

lemma binade_range: "- 1022 \<le> binade x \<and> binade x \<le> 1023"
  using exponent_up_range[of 1023 "\<bar>x\<bar>"] exponent_down_range[of 1022 "\<bar>x\<bar>"]
  by (auto simp: binade_def)

lemma binade_lower: "- 1022 < binade x \<Longrightarrow> 2 powi (binade x) \<le> \<bar>x\<bar>"
  using exponent_up_lower[of "\<bar>x\<bar>" 1023] exponent_down_lower[of 1022 "\<bar>x\<bar>"]
  by (auto simp: binade_def split: if_splits)

lemma binade_upper: "binade x < 1023 \<Longrightarrow> \<bar>x\<bar> < 2 powi (binade x + 1)"
  using exponent_up_upper[of 1023 "\<bar>x\<bar>"] exponent_down_upper[of "\<bar>x\<bar>" 1022]
  by (auto simp: binade_def split: if_splits)

lemma binade_unique:
  assumes "- 1022 \<le> e" "e \<le> 1023"
    and "e = - 1022 \<or> 2 powi e \<le> \<bar>x\<bar>"
    and "e = 1023 \<or> \<bar>x\<bar> < 2 powi (e + 1)"
  shows "binade x = e"
proof (rule ccontr)
  assume ne: "binade x \<noteq> e"
  show False
  proof (cases "binade x < e")
    case True
    then have "binade x < 1023" "- 1022 < e" using assms(2) binade_range[of x] by auto
    then have "\<bar>x\<bar> < 2 powi (binade x + 1)" "2 powi e \<le> \<bar>x\<bar>"
      using binade_upper assms(3) by auto
    moreover have "(2::real) powi (binade x + 1) \<le> 2 powi e"
      using True by (intro power_int_increasing) auto
    ultimately show False by linarith
  next
    case False
    with ne have gt: "e < binade x" by simp
    then have "- 1022 < binade x" "e < 1023" using assms(1) binade_range[of x] by auto
    then have "2 powi (binade x) \<le> \<bar>x\<bar>" "\<bar>x\<bar> < 2 powi (e + 1)"
      using binade_lower assms(4) by auto
    moreover have "(2::real) powi (e + 1) \<le> 2 powi (binade x)"
      using gt by (intro power_int_increasing) auto
    ultimately show False by linarith
  qed
qed

subsection \<open>Rounding is monotone, odd and exact on doubles\<close>

lemma double_limit_pos: "0 < double_limit"
  by (simp add: double_limit_def)

lemma binade_minus [simp]: "binade (- x) = binade x"
  by (simp add: binade_def)

lemma quantum_minus [simp]: "quantum (- x) = quantum x"
  by (simp add: quantum_def)

lemma quantum_pos: "0 < quantum x"
  by (simp add: quantum_def)

lemma nearest_minus: "nearest (- x) = - nearest x"
  by (simp add: nearest_def rhe_minus)

lemma pow2_add: "(2::real) powi (a + b) = 2 powi a * 2 powi b"
  by (rule power_int_add) simp

lemma pow2_le: "(2::real) powi a \<le> 2 powi b \<Longrightarrow> a \<le> b"
  using power_int_strict_increasing[of b a "2::real"] by (cases "a \<le> b") auto

lemma quantum_53: "quantum x * 2 ^ 53 = 2 powi (binade x + 1)"
proof -
  have "(2::real) powi ((binade x - 52) + 53) = 2 powi (binade x - 52) * 2 powi 53"
    by (rule pow2_add)
  moreover have "(binade x - 52) + 53 = binade x + 1" by simp
  ultimately have "(2::real) powi (binade x + 1) = 2 powi (binade x - 52) * 2 powi 53"
    by simp
  then show ?thesis by (simp add: quantum_def)
qed

lemma quantum_52: "quantum x * 2 ^ 52 = 2 powi (binade x)"
proof -
  have "(2::real) powi ((binade x - 52) + 52) = 2 powi (binade x - 52) * 2 powi 52"
    by (rule pow2_add)
  then show ?thesis by (simp add: quantum_def)
qed

lemma nearest_nonneg: "0 \<le> x \<Longrightarrow> 0 \<le> nearest x"
proof -
  assume "0 \<le> x"
  then have "0 \<le> x / quantum x" using quantum_pos[of x] by simp
  from rhe_mono[OF this] have "0 \<le> round_half_even (x / quantum x)"
    using rhe_of_int[of 0] by simp
  then show ?thesis using quantum_pos[of x] by (simp add: nearest_def)
qed

lemma nearest_upper:
  assumes "0 \<le> x" "binade x < 1023"
  shows "nearest x \<le> 2 powi (binade x + 1)"
proof -
  have "x < 2 powi (binade x + 1)" using binade_upper[OF assms(2)] assms(1) by simp
  then have "x < quantum x * 2 ^ 53" by (simp only: quantum_53)
  then have "x / quantum x \<le> of_int (2 ^ 53)"
    using quantum_pos[of x] by (simp add: field_simps)
  from rhe_mono[OF this] have "round_half_even (x / quantum x) \<le> 2 ^ 53"
    by (simp only: rhe_of_int)
  then have "real_of_int (round_half_even (x / quantum x)) \<le> 2 ^ 53"
    by (metis of_int_le_iff of_int_numeral of_int_power)
  then have "nearest x \<le> 2 ^ 53 * quantum x"
    unfolding nearest_def using quantum_pos[of x] by (intro mult_right_mono) auto
  then show ?thesis using quantum_53[of x] by (simp add: mult.commute)
qed

lemma nearest_lower:
  assumes "0 \<le> x" "- 1022 < binade x"
  shows "2 powi (binade x) \<le> nearest x"
proof -
  have "2 powi (binade x) \<le> x" using binade_lower[OF assms(2)] assms(1) by simp
  then have "quantum x * 2 ^ 52 \<le> x" by (simp only: quantum_52)
  then have "of_int (2 ^ 52) \<le> x / quantum x"
    using quantum_pos[of x] by (simp add: field_simps)
  from rhe_mono[OF this] have "2 ^ 52 \<le> round_half_even (x / quantum x)"
    by (simp only: rhe_of_int)
  then have "2 ^ 52 \<le> real_of_int (round_half_even (x / quantum x))"
    by (metis of_int_le_iff of_int_numeral of_int_power)
  then have "2 ^ 52 * quantum x \<le> nearest x"
    unfolding nearest_def using quantum_pos[of x] by (intro mult_right_mono) auto
  then show ?thesis using quantum_52[of x] by (simp add: mult.commute)
qed

lemma binade_mono:
  assumes "\<bar>x\<bar> \<le> \<bar>y\<bar>"
  shows "binade x \<le> binade y"
proof (rule ccontr)
  assume "\<not> binade x \<le> binade y"
  then have lt: "binade y < binade x" by simp
  then have "binade y < 1023" "- 1022 < binade x"
    using binade_range[of x] binade_range[of y] by auto
  then have "\<bar>y\<bar> < 2 powi (binade y + 1)" "2 powi (binade x) \<le> \<bar>x\<bar>"
    using binade_upper binade_lower by auto
  moreover have "(2::real) powi (binade y + 1) \<le> 2 powi (binade x)"
    using lt by (intro power_int_increasing) auto
  ultimately show False using assms by linarith
qed

lemma nearest_mono_nonneg:
  assumes "0 \<le> x" "x \<le> y"
  shows "nearest x \<le> nearest y"
proof (cases "binade x = binade y")
  case True
  then have q: "quantum x = quantum y" by (simp add: quantum_def)
  have "x / quantum y \<le> y / quantum y"
    using assms(2) quantum_pos[of y] by (simp add: divide_right_mono)
  from rhe_mono[OF this] show ?thesis
    unfolding nearest_def q using quantum_pos[of y] by (intro mult_right_mono) auto
next
  case False
  have "binade x \<le> binade y" using assms by (intro binade_mono) auto
  with False have lt: "binade x < binade y" by simp
  then have "binade x < 1023" "- 1022 < binade y"
    using binade_range[of x] binade_range[of y] by auto
  then have "nearest x \<le> 2 powi (binade x + 1)" "2 powi (binade y) \<le> nearest y"
    using nearest_upper[of x] nearest_lower[of y] assms by auto
  moreover have "(2::real) powi (binade x + 1) \<le> 2 powi (binade y)"
    using lt by (intro power_int_increasing) auto
  ultimately show ?thesis by linarith
qed

lemma nearest_mono:
  assumes "x \<le> y"
  shows "nearest x \<le> nearest y"
proof (cases "0 \<le> x")
  case True
  with assms show ?thesis by (rule nearest_mono_nonneg[rotated])
next
  case x: False
  show ?thesis
  proof (cases "0 \<le> y")
    case True
    have "0 \<le> nearest (- x)" using x by (intro nearest_nonneg) simp
    then have "nearest x \<le> 0" using nearest_minus[of x] by simp
    also have "0 \<le> nearest y" using True by (rule nearest_nonneg)
    finally show ?thesis .
  next
    case False
    then have "nearest (- y) \<le> nearest (- x)"
      using assms by (intro nearest_mono_nonneg) auto
    then show ?thesis by (simp add: nearest_minus)
  qed
qed



lemma nearest_exact:
  assumes "x = of_int m * 2 powi e" "\<bar>m\<bar> \<le> 2 ^ 53" "- 1074 \<le> e"
  shows "nearest x = x"
proof -
  have "\<exists>k. x / quantum x = of_int k"
  proof (cases "binade x - 52 \<le> e")
    case True
    have "x / quantum x = of_int m * (2 powi e / 2 powi (binade x - 52))"
      by (simp add: assms(1) quantum_def)
    also have "2 powi e / 2 powi (binade x - 52) = (2::real) powi (e - (binade x - 52))"
      by (simp add: power_int_diff)
    also have "\<dots> = 2 ^ nat (e - (binade x - 52))"
      using True by (simp add: power_int_nonneg_exp)
    finally have "x / quantum x = of_int (m * 2 ^ nat (e - (binade x - 52)))" by simp
    then show ?thesis ..
  next
    case False
    then have lt: "e + 52 < binade x" by simp
    then have "- 1022 < binade x" using assms(3) by simp
    then have lo: "2 powi (binade x) \<le> \<bar>x\<bar>" by (rule binade_lower)
    have ax: "\<bar>x\<bar> = of_int \<bar>m\<bar> * 2 powi e" by (simp add: assms(1) abs_mult)
    have "real_of_int \<bar>m\<bar> \<le> 2 ^ 53"
      using assms(2) by (metis of_int_le_iff of_int_numeral of_int_power)
    then have "\<bar>x\<bar> \<le> 2 ^ 53 * 2 powi e" unfolding ax by (intro mult_right_mono) auto
    also have "\<dots> = 2 powi (e + 53)"
      by (simp add: pow2_add)
    finally have "(2::real) powi (binade x) \<le> 2 powi (e + 53)" using lo by linarith
    then have "binade x \<le> e + 53" by (rule pow2_le)
    with lt have b: "binade x = e + 53" by simp
    have "(2::real) powi (e + 53) = 2 ^ 53 * 2 powi e"
      by (simp add: pow2_add)
    with lo b ax have "2 ^ 53 * 2 powi e \<le> real_of_int \<bar>m\<bar> * 2 powi e" by simp
    then have "2 ^ 53 \<le> real_of_int \<bar>m\<bar>" by simp
    with \<open>real_of_int \<bar>m\<bar> \<le> 2 ^ 53\<close> have "real_of_int \<bar>m\<bar> = 2 ^ 53" by linarith
    then have m: "real_of_int m = 2 ^ 53 \<or> real_of_int m = - (2 ^ 53)" by (auto simp: abs_if split: if_splits)
    have "binade x - 52 = e + 1" using b by simp
    then have q: "quantum x = 2 powi (e + 1)" by (simp only: quantum_def)
    have "(2::real) powi (e + 1) = 2 * 2 powi e"
      by (simp add: pow2_add)
    with q have qq: "quantum x = 2 * 2 powi e" by simp
    have "x / quantum x = x / (2 * 2 powi e)" by (simp only: qq)
    also have "\<dots> = of_int m / 2" by (simp add: assms(1))
    finally have h: "x / quantum x = of_int m / 2" .
    from m show ?thesis
    proof
      assume "real_of_int m = 2 ^ 53"
      with h have "x / quantum x = of_int (2 ^ 52)" by simp
      then show ?thesis ..
    next
      assume "real_of_int m = - (2 ^ 53)"
      with h have "x / quantum x = of_int (- (2 ^ 52))" by simp
      then show ?thesis ..
    qed
  qed
  then obtain k where k: "x / quantum x = of_int k" ..
  then have "x = of_int k * quantum x" using quantum_pos[of x] by (simp add: field_simps)
  then show ?thesis unfolding nearest_def k rhe_of_int by simp
qed

subsection \<open>Doubles, overflow and evaluation\<close>

lemma to_double_exact:
  assumes "x = of_int m * 2 powi e" "\<bar>m\<bar> \<le> 2 ^ 53" "- 1074 \<le> e" "\<bar>x\<bar> < double_limit"
  shows "to_double x = Fin x"
  using nearest_exact[OF assms(1-3)] assms(4) by (auto simp: to_double_def)

lemma small_below_limit: "\<bar>x\<bar> \<le> 2 ^ 53 \<Longrightarrow> \<bar>x\<bar> < double_limit"
proof -
  have "(2::real) ^ 53 < 2 ^ 1024" by (rule power_strict_increasing) simp_all
  then show "\<bar>x\<bar> \<le> 2 ^ 53 \<Longrightarrow> \<bar>x\<bar> < double_limit"
    unfolding double_limit_def by (rule le_less_trans[rotated])
qed

lemma is_double_int: "\<bar>n\<bar> \<le> 2 ^ 53 \<Longrightarrow> is_double (of_int n)"
proof -
  assume n: "\<bar>n\<bar> \<le> 2 ^ 53"
  then have "\<bar>real_of_int n\<bar> \<le> 2 ^ 53"
    by (metis of_int_abs of_int_le_iff of_int_numeral of_int_power)
  then have "\<bar>real_of_int n\<bar> < double_limit" by (rule small_below_limit)
  with to_double_exact[of "of_int n" n 0] n show ?thesis by (simp add: is_double_def)
qed

lemma to_double_numeral [simp]:
  "numeral k \<le> (9007199254740992 :: int) \<Longrightarrow> to_double (numeral k) = Fin (numeral k)"
  using is_double_int[of "numeral k"] by (simp add: is_double_def)

lemma to_double_0 [simp]: "to_double 0 = Fin 0"
  using is_double_int[of 0] by (simp add: is_double_def)

lemma to_double_1 [simp]: "to_double 1 = Fin 1"
  using is_double_int[of 1] by (simp add: is_double_def)


lemma to_double_overflow:
  assumes "double_limit \<le> x"
  shows "to_double x = PosInf"
proof -
  have "(2::real) ^ 1023 \<le> 2 ^ 1024" by (rule power_increasing) simp_all
  then have x: "2 ^ 1023 \<le> x" "0 \<le> x" using assms by (simp_all add: double_limit_def)
  then have "2 powi 1023 \<le> \<bar>x\<bar>" by (simp del: power_numeral)
  then have b: "binade x = 1023" by (intro binade_unique) auto
  then have q: "quantum x = 2 ^ 971" by (simp add: quantum_def del: power_numeral)
  have "(2::real) ^ 1024 = 2 ^ 53 * 2 ^ 971" by (simp flip: power_add)
  then have "2 ^ 53 * quantum x \<le> x" using assms unfolding q double_limit_def by simp
  then have "of_int (2 ^ 53) \<le> x / quantum x"
    using quantum_pos[of x] by (simp add: field_simps)
  from rhe_mono[OF this] have "2 ^ 53 \<le> round_half_even (x / quantum x)"
    by (simp only: rhe_of_int)
  then have "2 ^ 53 \<le> real_of_int (round_half_even (x / quantum x))"
    by (metis of_int_le_iff of_int_numeral of_int_power)
  then have "2 ^ 53 * quantum x \<le> nearest x"
    unfolding nearest_def using quantum_pos[of x] by (intro mult_right_mono) auto
  moreover have "(2::real) ^ 1024 = 2 ^ 53 * 2 ^ 971" by (simp flip: power_add)
  ultimately have "double_limit \<le> nearest x" unfolding q double_limit_def by simp
  then show ?thesis by (simp add: to_double_def)
qed

lemma to_double_nonneg:
  assumes "0 \<le> x"
  shows "to_double x = PosInf \<or> (\<exists>y. to_double x = Fin y \<and> 0 \<le> y)"
  using nearest_nonneg[OF assms] double_limit_pos by (auto simp: to_double_def Let_def)

lemma nearest_in_binade:
  assumes "- 1022 \<le> e" "e \<le> 1023" "2 powi e \<le> \<bar>x\<bar>" "\<bar>x\<bar> < 2 powi (e + 1)"
  shows "nearest x = of_int (round_half_even (x / 2 powi (e - 52))) * 2 powi (e - 52)"
proof -
  have "binade x = e" using assms by (intro binade_unique) auto
  then show ?thesis by (simp add: nearest_def quantum_def)
qed

lemma nearest_subnormal:
  assumes "\<bar>x\<bar> < 2 powi (- 1022)"
  shows "nearest x = of_int (round_half_even (x / 2 powi (- 1074))) * 2 powi (- 1074)"
proof -
  have "binade x = - 1022" using assms by (intro binade_unique) auto
  then show ?thesis by (simp add: nearest_def quantum_def)
qed

lemma Fin_nearest: "nearest x = v \<Longrightarrow> \<bar>v\<bar> \<le> 2 ^ 53 \<Longrightarrow> to_double x = Fin v"
  using small_below_limit[of v] by (auto simp: to_double_def Let_def)




lemma limit_10_309: "double_limit \<le> 10 ^ 309"
  by (simp add: double_limit_def)

subsection \<open>Bounds that survive rounding\<close>

lemma is_double_nearest: "is_double x \<Longrightarrow> nearest x = x"
  by (auto simp: is_double_def to_double_def Let_def split: if_splits)

lemma is_double_below_limit: "is_double x \<Longrightarrow> \<bar>x\<bar> < double_limit"
  by (auto simp: is_double_def to_double_def Let_def split: if_splits)

lemma to_double_between:
  assumes "is_double a" "is_double b" "a \<le> x" "x \<le> b"
  shows "to_double x = Fin (nearest x) \<and> a \<le> nearest x \<and> nearest x \<le> b"
proof -
  have "a \<le> nearest x" "nearest x \<le> b"
    using nearest_mono[OF assms(3)] nearest_mono[OF assms(4)] assms(1,2)
    by (simp_all add: is_double_nearest)
  moreover from this have "\<bar>nearest x\<bar> < double_limit"
    using is_double_below_limit[OF assms(1)] is_double_below_limit[OF assms(2)] by linarith
  ultimately show ?thesis by (auto simp: to_double_def Let_def)
qed

lemma Math_round_to_double_between:
  assumes "is_double a" "is_double b" "a \<le> x" "x \<le> b"
    and "\<lfloor>a + 1 / 2\<rfloor> = n" "\<lfloor>b + 1 / 2\<rfloor> = n"
  shows "Math_round (to_double x) = Fin (of_int n)"
proof -
  from to_double_between[OF assms(1-4)]
  have t: "to_double x = Fin (nearest x)" and "a \<le> nearest x" "nearest x \<le> b" by simp_all
  then have "\<lfloor>a + 1 / 2\<rfloor> \<le> \<lfloor>nearest x + 1 / 2\<rfloor>" "\<lfloor>nearest x + 1 / 2\<rfloor> \<le> \<lfloor>b + 1 / 2\<rfloor>"
    by (simp_all add: floor_mono)
  with assms(5,6) have "\<lfloor>nearest x + 1 / 2\<rfloor> = n" by linarith
  with t show ?thesis by simp
qed

lemma is_double_dyadic:
  assumes "\<bar>m\<bar> \<le> 2 ^ 53" "k \<le> 1074"
  shows "is_double (of_int m / 2 ^ k)"
proof -
  have e: "real_of_int m / 2 ^ k = of_int m * 2 powi (- int k)"
    by (simp add: power_int_minus field_simps)
  have "\<bar>real_of_int m\<bar> \<le> 2 ^ 53"
    using assms(1) by (metis of_int_abs of_int_le_iff of_int_numeral of_int_power)
  moreover have "\<bar>real_of_int m / 2 ^ k\<bar> \<le> \<bar>real_of_int m\<bar>"
    by (simp add: abs_divide field_simps mult_le_cancel_left1 abs_ge_zero)
  ultimately have "\<bar>real_of_int m / 2 ^ k\<bar> < double_limit"
    by (intro small_below_limit) linarith
  with to_double_exact[OF e assms(1)] assms(2) show ?thesis
    by (simp add: is_double_def)
qed

lemma to_double_not_below_zero: "0 \<le> x \<Longrightarrow> js_le (Fin 0) (to_double x)"
  using to_double_nonneg[of x] by auto

lemma js_le_not_NaN: "js_le a v \<Longrightarrow> \<not> isNaN v"
  by (cases a; cases v) simp_all

lemma js_add_not_below_zero:
  "js_le (Fin 0) a \<Longrightarrow> js_le (Fin 0) b \<Longrightarrow> js_le (Fin 0) (js_add a b)"
  by (cases a; cases b) (simp_all add: to_double_not_below_zero)

lemma js_div_by_not_below_zero:
  "js_le (Fin 0) a \<Longrightarrow> 0 < d \<Longrightarrow> js_le (Fin 0) (js_div_by a d)"
  by (cases a) (simp_all add: to_double_not_below_zero)

subsection \<open>The rounding error and the shape of a double\<close>






lemma int_le_2_53: "n \<le> 2 ^ 53 \<Longrightarrow> \<bar>int n\<bar> \<le> 2 ^ 53"
proof -
  assume "n \<le> 2 ^ 53"
  then have "int n \<le> int (2 ^ 53)" by (simp only: of_nat_le_iff)
  then show ?thesis by simp
qed

lemma is_double_nat: "n \<le> 2 ^ 53 \<Longrightarrow> is_double (real n)"
  using is_double_int[OF int_le_2_53, of n] by simp

subsection \<open>Comparison and maximum\<close>


lemma js_le_trans: "js_le a b \<Longrightarrow> js_le b c \<Longrightarrow> js_le a c"
  by (cases a; cases b; cases c) simp_all

section \<open>Properties of the retry executor\<close>

subsection \<open>One round of the loop\<close>

text \<open>
  The loop equation, one lemma per path through the body: the five ways an attempt can end,
  and the code after the loop.
\<close>

lemma retry_loop_success:
  "attempt \<le> s_maxRetries cfg \<Longrightarrow> invoke fn w = (Resolves result, w1) \<Longrightarrow>
   \<not> retryable_response cfg result \<Longrightarrow>
   retry_loop cfg fn attempt lastError w =
     (\<lparr> success = True, data = Some result, error = None, attempts = attempt + 1 \<rparr>, w1)"
  by (subst retry_loop.simps, cases result) (auto simp: retryable_response_def)

lemma retry_loop_response_exhausted:
  "attempt = s_maxRetries cfg \<Longrightarrow> invoke fn w = (Resolves (IsResponse r), w1) \<Longrightarrow>
   \<not> ok r \<Longrightarrow> s_isRetryableResponse cfg r \<Longrightarrow>
   retry_loop cfg fn attempt lastError w =
     (\<lparr> success = False, data = None,
        error = Some (new_Error (s_errorMessagePrefix cfg @ '' after ''
                  @ show_int (attempt + 1) @ '' attempts: ''
                  @ show_int (status r) @ '' '' @ statusText r)),
        attempts = attempt + 1 \<rparr>, w1)"
  by (subst retry_loop.simps) simp

lemma retry_loop_response_retry:
  "attempt < s_maxRetries cfg \<Longrightarrow> invoke fn w = (Resolves (IsResponse r), w1) \<Longrightarrow>
   \<not> ok r \<Longrightarrow> s_isRetryableResponse cfg r \<Longrightarrow>
   retry_loop cfg fn attempt lastError w =
     retry_loop cfg fn (attempt + 1) lastError (backoff cfg attempt w1)"
  by (subst retry_loop.simps) simp

lemma retry_loop_reject_final:
  "attempt \<le> s_maxRetries cfg \<Longrightarrow> invoke fn w = (Rejects err, w1) \<Longrightarrow>
   \<not> s_isRetryable cfg err \<or> attempt = s_maxRetries cfg \<Longrightarrow>
   retry_loop cfg fn attempt lastError w =
     (\<lparr> success = False, data = None, error = Some (as_Error err),
        attempts = attempt + 1 \<rparr>, w1)"
  by (subst retry_loop.simps) auto

lemma retry_loop_reject_retry:
  "attempt < s_maxRetries cfg \<Longrightarrow> invoke fn w = (Rejects err, w1) \<Longrightarrow>
   s_isRetryable cfg err \<Longrightarrow>
   retry_loop cfg fn attempt lastError w =
     retry_loop cfg fn (attempt + 1) (Some (as_Error err)) (backoff cfg attempt w1)"
  by (subst retry_loop.simps) simp

lemma retry_loop_not_entered:
  "\<not> attempt \<le> s_maxRetries cfg \<Longrightarrow>
   retry_loop cfg fn attempt lastError w =
     (\<lparr> success = False, data = None,
        error = Some (case lastError of Some e \<Rightarrow> e | None \<Rightarrow> new_Error ''Unknown error''),
        attempts = s_maxRetries cfg + 1 \<rparr>, w)"
  by (subst retry_loop.simps) simp

subsection \<open>Counting invocations\<close>

lemma invoke_counted:
  "invoke fn w = (out, w1) \<Longrightarrow>
   invoke (counted fn) (with_counter w n) = (out, with_counter w1 (Suc n))"
  by (auto simp: invoke_def counted_def with_counter_def split: prod.splits)

lemma backoff_counted:
  "backoff cfg a (with_counter w n) = with_counter (backoff cfg a w) n"
  by (simp add: backoff_def calculateDelay_def sleep_def Math_random_def Let_def with_counter_def)

lemma retry_loop_counted:
  "0 \<le> a \<Longrightarrow> a \<le> s_maxRetries cfg \<Longrightarrow> retry_loop cfg fn a le w = (res, w') \<Longrightarrow>
   retry_loop cfg (counted fn) a le (with_counter w (nat a))
     = (res, with_counter w' (nat (attempts res)))
   \<and> a + 1 \<le> attempts res \<and> attempts res \<le> s_maxRetries cfg + 1"
proof (induction cfg fn a le w arbitrary: res w' rule: retry_loop.induct)
  case (1 cfg fn attempt lastError w)
  note run = \<open>retry_loop cfg fn attempt lastError w = (res, w')\<close>
  note le = \<open>attempt \<le> s_maxRetries cfg\<close>
  note nonneg = \<open>0 \<le> attempt\<close>
  obtain out w1 where inv: "invoke fn w = (out, w1)" by (cases "invoke fn w")
  have inv_c: "invoke (counted fn) (with_counter w (nat attempt))
                 = (out, with_counter w1 (nat (attempt + 1)))"
    using invoke_counted[OF inv, of "nat attempt"] nonneg by (simp add: nat_add_distrib)
  show ?case
  proof (cases out)
    case (Resolves result)
    show ?thesis
    proof (cases "retryable_response cfg result")
      case False
      from retry_loop_success[OF le inv[unfolded Resolves] False, of lastError] run
        retry_loop_success[OF le inv_c[unfolded Resolves] False, of lastError] le
      show ?thesis by auto
    next
      case True
      then obtain r where r: "result = IsResponse r" "\<not> ok r" "s_isRetryableResponse cfg r"
        by (auto simp: retryable_response_def split: resolved.splits)
      show ?thesis
      proof (cases "attempt = s_maxRetries cfg")
        case True
        from retry_loop_response_exhausted[OF True inv[unfolded Resolves r(1)] r(2,3), of lastError] run
          retry_loop_response_exhausted[OF True inv_c[unfolded Resolves r(1)] r(2,3), of lastError] le
        show ?thesis by auto
      next
        case False
        then have lt: "attempt < s_maxRetries cfg" using le by simp
        have next_run: "retry_loop cfg fn (attempt + 1) lastError (backoff cfg attempt w1) = (res, w')"
          using retry_loop_response_retry[OF lt inv[unfolded Resolves r(1)] r(2,3), of lastError] run by simp
        have "retry_loop cfg (counted fn) (attempt + 1) lastError
                (with_counter (backoff cfg attempt w1) (nat (attempt + 1)))
                = (res, with_counter w' (nat (attempts res)))
              \<and> attempt + 1 + 1 \<le> attempts res \<and> attempts res \<le> s_maxRetries cfg + 1"
          using "1.IH"(1)[OF le inv[symmetric] Resolves r(1) _ _ _ _ next_run] r(2,3) lt nonneg
          by simp
        then show ?thesis
          using retry_loop_response_retry[OF lt inv_c[unfolded Resolves r(1)] r(2,3), of lastError]
          by (simp add: backoff_counted)
      qed
    qed
  next
    case (Rejects err)
    show ?thesis
    proof (cases "\<not> s_isRetryable cfg err \<or> attempt = s_maxRetries cfg")
      case True
      from retry_loop_reject_final[OF le inv[unfolded Rejects] True, of lastError] run
        retry_loop_reject_final[OF le inv_c[unfolded Rejects] True, of lastError] le
      show ?thesis by auto
    next
      case False
      then have lt: "attempt < s_maxRetries cfg" and rt: "s_isRetryable cfg err" using le by auto
      have next_run: "retry_loop cfg fn (attempt + 1) (Some (as_Error err)) (backoff cfg attempt w1) = (res, w')"
        using retry_loop_reject_retry[OF lt inv[unfolded Rejects] rt, of lastError] run by simp
      have "retry_loop cfg (counted fn) (attempt + 1) (Some (as_Error err))
                (with_counter (backoff cfg attempt w1) (nat (attempt + 1)))
                = (res, with_counter w' (nat (attempts res)))
              \<and> attempt + 1 + 1 \<le> attempts res \<and> attempts res \<le> s_maxRetries cfg + 1"
        using "1.IH"(2)[OF le inv[symmetric] Rejects _ _ _ _ next_run] rt lt nonneg
        by simp
      then show ?thesis
        using retry_loop_reject_retry[OF lt inv_c[unfolded Rejects] rt, of lastError]
        by (simp add: backoff_counted)
    qed
  qed
qed

lemma calls_with_counter [simp]: "calls (with_counter w n) = n"
  by (simp add: calls_def with_counter_def)

lemma invoke_eq:
  "fn (op_state w) = (out, s') \<Longrightarrow> invoke fn w = (out, w\<lparr>op_state := s'\<rparr>)"
  by (simp add: invoke_def)

lemma op_state_backoff [simp]: "op_state (backoff cfg a w) = op_state w"
  by (simp add: backoff_def calculateDelay_def sleep_def Math_random_def Let_def split: prod.splits)

lemma retry_counted:
  assumes "0 \<le> s_maxRetries (destructure options)"
  shows "retry (counted fn) options (with_counter w 0)
           = (fst (retry fn options w),
              with_counter (snd (retry fn options w)) (nat (attempts (fst (retry fn options w)))))
         \<and> 1 \<le> attempts (fst (retry fn options w))
         \<and> attempts (fst (retry fn options w)) \<le> s_maxRetries (destructure options) + 1"
  using retry_loop_counted[of 0 "destructure options" fn None w
          "fst (retry fn options w)" "snd (retry fn options w)"] assms
  by (simp add: retry_def)

subsection \<open>The scenarios of the test suite\<close>

lemma retry_first_call_succeeds:
  assumes "0 \<le> s_maxRetries (destructure options)"
    and "fn (op_state w) = (Resolves result, s')"
    and "\<not> retryable_response (destructure options) result"
  shows "retry fn options w
           = (\<lparr> success = True, data = Some result, error = None, attempts = 1 \<rparr>,
              w\<lparr>op_state := s'\<rparr>)"
  using retry_loop_success[OF _ invoke_eq[of fn w, OF assms(2)] assms(3), of 0 None] assms(1)
  by (simp add: retry_def)

lemma retry_fails_once_then_succeeds:
  assumes "1 \<le> s_maxRetries (destructure options)"
    and "fn (op_state w) = (Rejects err, s1)"
    and "s_isRetryable (destructure options) err"
    and "fn s1 = (Resolves result, s2)"
    and "\<not> retryable_response (destructure options) result"
  shows "retry fn options w
           = (\<lparr> success = True, data = Some result, error = None, attempts = 2 \<rparr>,
              (backoff (destructure options) 0 (w\<lparr>op_state := s1\<rparr>))\<lparr>op_state := s2\<rparr>)"
proof -
  let ?cfg = "destructure options"
  let ?w1 = "backoff ?cfg 0 (w\<lparr>op_state := s1\<rparr>)"
  have "fn (op_state ?w1) = (Resolves result, s2)" using assms(4) by simp
  from retry_loop_success[OF _ invoke_eq[of fn ?w1, OF this] assms(5), of 1 "Some (as_Error err)"] assms(1)
  have "retry_loop ?cfg fn 1 (Some (as_Error err)) ?w1
          = (\<lparr> success = True, data = Some result, error = None, attempts = 2 \<rparr>,
              ?w1\<lparr>op_state := s2\<rparr>)" by simp
  with retry_loop_reject_retry[OF _ invoke_eq[of fn w, OF assms(2)] assms(3), of 0 None] assms(1)
  show ?thesis by (simp add: retry_def)
qed

lemma retry_loop_always_failing:
  assumes "\<forall>s. I s \<longrightarrow> (\<exists>err s'. fn s = (Rejects err, s') \<and> s_isRetryable cfg err \<and> I s')"
  shows "a \<le> s_maxRetries cfg \<Longrightarrow> I (op_state w) \<Longrightarrow>
         success (fst (retry_loop cfg fn a le w)) = False
         \<and> attempts (fst (retry_loop cfg fn a le w)) = s_maxRetries cfg + 1"
  using assms
proof (induction cfg fn a le w rule: retry_loop.induct)
  case (1 cfg fn attempt lastError w)
  from "1.prems"(2,3) obtain err s' where f: "fn (op_state w) = (Rejects err, s')"
    and rt: "s_isRetryable cfg err" and I': "I s'" by blast
  note inv = invoke_eq[of fn w, OF f]
  show ?case
  proof (cases "attempt = s_maxRetries cfg")
    case True
    with retry_loop_reject_final[OF "1.prems"(1) inv, of lastError] show ?thesis by simp
  next
    case False
    then have lt: "attempt < s_maxRetries cfg" using "1.prems"(1) by simp
    from "1.IH"(2)[OF "1.prems"(1) inv[symmetric] refl _ _ _ _ "1.prems"(3)] rt lt I'
      retry_loop_reject_retry[OF lt inv rt, of lastError]
    show ?thesis by simp
  qed
qed

lemma retry_always_failing:
  assumes "0 \<le> s_maxRetries (destructure options)"
    and "I (op_state w)"
    and "\<forall>s. I s \<longrightarrow> (\<exists>err s'. fn s = (Rejects err, s')
            \<and> s_isRetryable (destructure options) err \<and> I s')"
  shows "success (fst (retry fn options w)) = False
         \<and> attempts (fst (retry fn options w)) = s_maxRetries (destructure options) + 1"
  using retry_loop_always_failing[OF assms(3) assms(1) assms(2), of None] by (simp add: retry_def)

lemma default_response_predicate:
  "isRetryableResponse options = None \<Longrightarrow>
   s_isRetryableResponse (destructure options) = defaultIsRetryableResponse"
  by (simp add: destructure_def or_default_def)

lemma retry_500_then_200:
  assumes "1 \<le> s_maxRetries (destructure options)"
    and "isRetryableResponse options = None"
    and "fn (op_state w) = (Resolves (IsResponse r1), s1)" and "status r1 = 500"
    and "fn s1 = (Resolves (IsResponse r2), s2)" and "status r2 = 200"
  shows "retry fn options w
           = (\<lparr> success = True, data = Some (IsResponse r2), error = None, attempts = 2 \<rparr>,
              (backoff (destructure options) 0 (w\<lparr>op_state := s1\<rparr>))\<lparr>op_state := s2\<rparr>)"
proof -
  let ?cfg = "destructure options"
  let ?w1 = "backoff ?cfg 0 (w\<lparr>op_state := s1\<rparr>)"
  note dflt = default_response_predicate[OF assms(2)]
  have r1: "\<not> ok r1" "s_isRetryableResponse ?cfg r1"
    using assms(4) by (simp_all add: dflt ok_def defaultIsRetryableResponse_def)
  have r2: "\<not> retryable_response ?cfg (IsResponse r2)"
    using assms(6) by (simp add: retryable_response_def ok_def)
  have "fn (op_state ?w1) = (Resolves (IsResponse r2), s2)" using assms(5) by simp
  from retry_loop_success[OF _ invoke_eq[of fn ?w1, OF this] r2, of 1 None] assms(1)
  have "retry_loop ?cfg fn 1 None ?w1
          = (\<lparr> success = True, data = Some (IsResponse r2), error = None, attempts = 2 \<rparr>,
              ?w1\<lparr>op_state := s2\<rparr>)" by simp
  with retry_loop_response_retry[OF _ invoke_eq[of fn w, OF assms(3)] r1, of 0 None] assms(1)
  show ?thesis by (simp add: retry_def)
qed

subsection \<open>Claim C1: the attempts field counts the invocations\<close>

lemma test_options_settings [simp]:
  "s_maxRetries (destructure test_options) = 2"
  "s_isRetryable (destructure test_options) = defaultIsRetryable"
  "s_isRetryableResponse (destructure test_options) = defaultIsRetryableResponse"
  "maxRetries test_options = Some 2"
  "isRetryableResponse test_options = None"
  by (simp_all add: destructure_def test_options_def no_options_def or_default_def)

lemma network_error_retryable [simp]: "defaultIsRetryable (ErrorObj network_error)"
  by (simp add: defaultIsRetryable_def network_error_def)

text \<open>
  Outside the data model, with a negative \<open>maxRetries\<close>, the loop body never runs: the
  operation is not invoked and the code after the loop reports \<open>maxRetries + 1\<close>
  attempts.
\<close>

lemma retry_negative_maxRetries:
  assumes "s_maxRetries (destructure options) < 0"
  shows "retry fn options w
           = (\<lparr> success = False, data = None, error = Some (new_Error ''Unknown error''),
                attempts = s_maxRetries (destructure options) + 1 \<rparr>, w)"
  using assms by (simp add: retry_def retry_loop_not_entered)

text \<open>
  Claim C1. For every wrapped operation and every options record whose \<open>maxRetries\<close> is
  a non-negative integer, the \<open>attempts\<close> field of the result equals the number of times
  the operation was invoked, and lies between 1 and \<open>maxRetries + 1\<close>. The number of
  invocations is read off a call counter wrapped around the operation, which leaves the
  result unchanged. In particular: an operation that succeeds on the first call gives
  \<open>{success: true, attempts: 1}\<close> with one invocation; one that throws a retryable error
  once and then succeeds gives \<open>{success: true, attempts: 2}\<close>; one that throws a
  retryable error in every state it reaches, with \<open>maxRetries = 2\<close>, gives
  \<open>{success: false, attempts: 3}\<close> with three invocations; one that resolves a 500
  response and then a 200 response gives success with \<open>attempts: 2\<close>.
\<close>

theorem retry_attempts_count_invocations:
  "(\<forall>(fn :: ('s, 'a) operation) options (w :: 's world).
      0 \<le> s_maxRetries (destructure options) \<longrightarrow>
      fst (retry (counted fn) options (with_counter w 0)) = fst (retry fn options w)
      \<and> attempts (fst (retry fn options w))
            = int (calls (snd (retry (counted fn) options (with_counter w 0))))
      \<and> 1 \<le> attempts (fst (retry fn options w))
      \<and> attempts (fst (retry fn options w)) \<le> s_maxRetries (destructure options) + 1)
   \<and> (\<forall>(fn :: ('s, 'a) operation) options (w :: 's world) result s'.
        0 \<le> s_maxRetries (destructure options)
        \<and> fn (op_state w) = (Resolves result, s')
        \<and> \<not> retryable_response (destructure options) result \<longrightarrow>
        fst (retry (counted fn) options (with_counter w 0))
            = \<lparr> success = True, data = Some result, error = None, attempts = 1 \<rparr>
        \<and> calls (snd (retry (counted fn) options (with_counter w 0))) = 1)
   \<and> (\<forall>(fn :: ('s, 'a) operation) options (w :: 's world) err s1 result s2.
        1 \<le> s_maxRetries (destructure options)
        \<and> fn (op_state w) = (Rejects err, s1) \<and> s_isRetryable (destructure options) err
        \<and> fn s1 = (Resolves result, s2)
        \<and> \<not> retryable_response (destructure options) result \<longrightarrow>
        fst (retry (counted fn) options (with_counter w 0))
            = \<lparr> success = True, data = Some result, error = None, attempts = 2 \<rparr>
        \<and> calls (snd (retry (counted fn) options (with_counter w 0))) = 2)
   \<and> (\<forall>(fn :: ('s, 'a) operation) options (w :: 's world) I.
        maxRetries options = Some 2 \<and> I (op_state w)
        \<and> (\<forall>s. I s \<longrightarrow> (\<exists>err s'. fn s = (Rejects err, s')
                \<and> s_isRetryable (destructure options) err \<and> I s')) \<longrightarrow>
        success (fst (retry (counted fn) options (with_counter w 0))) = False
        \<and> attempts (fst (retry (counted fn) options (with_counter w 0))) = 3
        \<and> calls (snd (retry (counted fn) options (with_counter w 0))) = 3)
   \<and> (\<forall>(fn :: ('s, 'a) operation) options (w :: 's world) r1 s1 r2 s2.
        1 \<le> s_maxRetries (destructure options) \<and> isRetryableResponse options = None
        \<and> fn (op_state w) = (Resolves (IsResponse r1), s1) \<and> status r1 = 500
        \<and> fn s1 = (Resolves (IsResponse r2), s2) \<and> status r2 = 200 \<longrightarrow>
        fst (retry (counted fn) options (with_counter w 0))
            = \<lparr> success = True, data = Some (IsResponse r2), error = None, attempts = 2 \<rparr>
        \<and> calls (snd (retry (counted fn) options (with_counter w 0))) = 2)"
proof (intro conjI allI impI; (elim conjE)?)
  fix fn :: "('s, 'a) operation" and options and w :: "'s world"
  assume m: "0 \<le> s_maxRetries (destructure options)"
  note c = retry_counted[OF m, of fn w]
  show "fst (retry (counted fn) options (with_counter w 0)) = fst (retry fn options w)"
    using c by simp
  show "attempts (fst (retry fn options w))
            = int (calls (snd (retry (counted fn) options (with_counter w 0))))"
    using c by simp
  show "1 \<le> attempts (fst (retry fn options w))" using c by simp
  show "attempts (fst (retry fn options w)) \<le> s_maxRetries (destructure options) + 1"
    using c by simp
next
  fix fn :: "('s, 'a) operation" and options and w :: "'s world" and result s'
  assume m: "0 \<le> s_maxRetries (destructure options)"
    and f: "fn (op_state w) = (Resolves result, s')"
    and r: "\<not> retryable_response (destructure options) result"
  note c = retry_counted[OF m, of fn w] and e = retry_first_call_succeeds[where fn=fn and w=w, OF m f r]
  show "fst (retry (counted fn) options (with_counter w 0))
            = \<lparr> success = True, data = Some result, error = None, attempts = 1 \<rparr>"
    using c e by simp
  show "calls (snd (retry (counted fn) options (with_counter w 0))) = 1"
    using c e by simp
next
  fix fn :: "('s, 'a) operation" and options and w :: "'s world" and err s1 result s2
  assume m: "1 \<le> s_maxRetries (destructure options)"
    and f1: "fn (op_state w) = (Rejects err, s1)" and rt: "s_isRetryable (destructure options) err"
    and f2: "fn s1 = (Resolves result, s2)"
    and r: "\<not> retryable_response (destructure options) result"
  from m have m0: "0 \<le> s_maxRetries (destructure options)" by simp
  note c = retry_counted[OF m0, of fn w] and e = retry_fails_once_then_succeeds[where fn=fn and w=w, OF m f1 rt f2 r]
  show "fst (retry (counted fn) options (with_counter w 0))
            = \<lparr> success = True, data = Some result, error = None, attempts = 2 \<rparr>"
    using c e by simp
  show "calls (snd (retry (counted fn) options (with_counter w 0))) = 2"
    using c e by simp
next
  fix fn :: "('s, 'a) operation" and options and w :: "'s world" and I
  assume mr: "maxRetries options = Some 2" and I0: "I (op_state w)"
    and f: "\<forall>s. I s \<longrightarrow> (\<exists>err s'. fn s = (Rejects err, s')
                \<and> s_isRetryable (destructure options) err \<and> I s')"
  from mr have m: "s_maxRetries (destructure options) = 2"
    by (simp add: destructure_def or_default_def)
  then have m0: "0 \<le> s_maxRetries (destructure options)" by simp
  note c = retry_counted[OF m0, of fn w] and e = retry_always_failing[where fn=fn and w=w and I=I, OF m0 I0 f]
  show "success (fst (retry (counted fn) options (with_counter w 0))) = False"
    using c e by simp
  show "attempts (fst (retry (counted fn) options (with_counter w 0))) = 3"
    using c e m by simp
  show "calls (snd (retry (counted fn) options (with_counter w 0))) = 3"
    using c e m by simp
next
  fix fn :: "('s, 'a) operation" and options and w :: "'s world" and r1 s1 r2 s2
  assume m: "1 \<le> s_maxRetries (destructure options)" and d: "isRetryableResponse options = None"
    and f1: "fn (op_state w) = (Resolves (IsResponse r1), s1)" and st1: "status r1 = 500"
    and f2: "fn s1 = (Resolves (IsResponse r2), s2)" and st2: "status r2 = 200"
  from m have m0: "0 \<le> s_maxRetries (destructure options)" by simp
  note c = retry_counted[OF m0, of fn w] and e = retry_500_then_200[where fn=fn and w=w, OF m d f1 st1 f2 st2]
  show "fst (retry (counted fn) options (with_counter w 0))
            = \<lparr> success = True, data = Some (IsResponse r2), error = None, attempts = 2 \<rparr>"
    using c e by simp
  show "calls (snd (retry (counted fn) options (with_counter w 0))) = 2"
    using c e by simp
qed


theorem retry_attempts_count_invocations_witness:
  "(0 \<le> s_maxRetries (destructure test_options)
    \<and> attempts (fst (retry (mock (Resolves (Plain ''success''))) test_options
                  (fresh_world [Rejects (ErrorObj network_error)])))
        = int (calls (snd (retry (counted (mock (Resolves (Plain ''success'')))) test_options
                  (with_counter (fresh_world [Rejects (ErrorObj network_error)]) 0)))))
   \<and> (fst (retry (counted (mock (Resolves (Plain ''success'')))) test_options
               (with_counter (fresh_world []) 0))
         = \<lparr> success = True, data = Some (Plain ''success''), error = None, attempts = 1 \<rparr>
       \<and> calls (snd (retry (counted (mock (Resolves (Plain ''success'')))) test_options
               (with_counter (fresh_world []) 0))) = 1)
   \<and> (fst (retry (counted (mock (Resolves (Plain ''success'')))) test_options
               (with_counter (fresh_world [Rejects (ErrorObj network_error)]) 0))
         = \<lparr> success = True, data = Some (Plain ''success''), error = None, attempts = 2 \<rparr>
       \<and> calls (snd (retry (counted (mock (Resolves (Plain ''success'')))) test_options
               (with_counter (fresh_world [Rejects (ErrorObj network_error)]) 0))) = 2)
   \<and> (success (fst (retry (counted (mock (Rejects (ErrorObj network_error)) :: (string outcome list, string) operation))
               test_options (with_counter (fresh_world []) 0))) = False
       \<and> attempts (fst (retry (counted (mock (Rejects (ErrorObj network_error)) :: (string outcome list, string) operation))
               test_options (with_counter (fresh_world []) 0))) = 3
       \<and> calls (snd (retry (counted (mock (Rejects (ErrorObj network_error)) :: (string outcome list, string) operation))
               test_options (with_counter (fresh_world []) 0))) = 3)
   \<and> (fst (retry (counted (mock (Resolves (Plain ''unused'')))) test_options
               (with_counter (fresh_world
                  [Resolves (IsResponse \<lparr> status = 500, statusText = [] \<rparr>),
                   Resolves (IsResponse \<lparr> status = 200, statusText = [] \<rparr>)]) 0))
         = \<lparr> success = True, data = Some (IsResponse \<lparr> status = 200, statusText = [] \<rparr>),
             error = None, attempts = 2 \<rparr>)"
proof -
  note claim = retry_attempts_count_invocations
  have a: "0 \<le> s_maxRetries (destructure test_options)" by simp
  note g = claim[THEN conjunct1, rule_format, OF a,
      of "mock (Resolves (Plain ''success''))" "fresh_world [Rejects (ErrorObj network_error)]"]
  note ex1 = claim[THEN conjunct2, THEN conjunct1, rule_format,
      of test_options "mock (Resolves (Plain ''success''))" "fresh_world []" "Plain ''success''" "[]"]
  note ex2 = claim[THEN conjunct2, THEN conjunct2, THEN conjunct1, rule_format,
      of test_options "mock (Resolves (Plain ''success''))"
         "fresh_world [Rejects (ErrorObj network_error)]" "ErrorObj network_error" "[]"
         "Plain ''success''" "[]"]
  note ex3 = claim[THEN conjunct2, THEN conjunct2, THEN conjunct2, THEN conjunct1, rule_format,
      of test_options "\<lambda>q. q = []" "fresh_world []"
         "mock (Rejects (ErrorObj network_error)) :: (string outcome list, string) operation"]
  note ex4 = claim[THEN conjunct2, THEN conjunct2, THEN conjunct2, THEN conjunct2, rule_format,
      of test_options "mock (Resolves (Plain ''unused''))"
         "fresh_world [Resolves (IsResponse \<lparr> status = 500, statusText = [] \<rparr>),
                   Resolves (IsResponse \<lparr> status = 200, statusText = [] \<rparr>)]"
         "\<lparr> status = 500, statusText = [] \<rparr>"
         "[Resolves (IsResponse \<lparr> status = 200, statusText = [] \<rparr>)]"
         "\<lparr> status = 200, statusText = [] \<rparr>" "[]"]
  show ?thesis
    apply (intro conjI)
    subgoal by simp
    subgoal using g by simp
    subgoal using ex1 by (simp add: mock_def fresh_world_def retryable_response_def)
    subgoal using ex1 by (simp add: mock_def fresh_world_def retryable_response_def)
    subgoal using ex2 by (simp add: mock_def fresh_world_def retryable_response_def)
    subgoal using ex2 by (simp add: mock_def fresh_world_def retryable_response_def)
    subgoal using ex3 by (simp add: mock_def fresh_world_def)
    subgoal using ex3 by (simp add: mock_def fresh_world_def)
    subgoal using ex3 by (simp add: mock_def fresh_world_def)
    subgoal using ex4 by (simp add: mock_def fresh_world_def)
    done
qed

subsection \<open>Claim C4: a non-retryable error ends the execution\<close>

lemma default_error_predicate:
  "isRetryable options = None \<Longrightarrow>
   s_isRetryable (destructure options) = defaultIsRetryable"
  by (simp add: destructure_def or_default_def)

text \<open>
  Claim C4. When an attempt throws an \<open>Error\<close> object \<open>e\<close> that \<open>isRetryable\<close>
  rejects, the executor stops there: from any round of the loop it returns
  \<open>success: false\<close>, the attempts made so far, and \<open>e\<close> itself as the error, in the
  world left by that invocation (no sleep, no further call). In particular the first attempt
  gives \<open>attempts: 1\<close> with one invocation, whatever \<open>maxRetries\<close> is.
\<close>

theorem retry_non_retryable_error_returned:
  "(\<forall>(cfg :: settings) (fn :: ('s, 'a) operation) attempt lastError (w :: 's world) e w1.
      attempt \<le> s_maxRetries cfg \<and> invoke fn w = (Rejects (ErrorObj e), w1)
      \<and> \<not> s_isRetryable cfg (ErrorObj e) \<longrightarrow>
      retry_loop cfg fn attempt lastError w
        = (\<lparr> success = False, data = None, error = Some e, attempts = attempt + 1 \<rparr>, w1))
   \<and> (\<forall>(fn :: ('s, 'a) operation) options (w :: 's world) e s'.
        0 \<le> s_maxRetries (destructure options)
        \<and> fn (op_state w) = (Rejects (ErrorObj e), s')
        \<and> \<not> s_isRetryable (destructure options) (ErrorObj e) \<longrightarrow>
        retry fn options w
          = (\<lparr> success = False, data = None, error = Some e, attempts = 1 \<rparr>,
             w\<lparr>op_state := s'\<rparr>)
        \<and> calls (snd (retry (counted fn) options (with_counter w 0))) = 1)"
proof (intro conjI allI impI; (elim conjE)?)
  fix cfg :: settings and fn :: "('s, 'a) operation" and attempt lastError and w :: "'s world" and e w1
  assume "attempt \<le> s_maxRetries cfg" "invoke fn w = (Rejects (ErrorObj e), w1)"
    "\<not> s_isRetryable cfg (ErrorObj e)"
  then show "retry_loop cfg fn attempt lastError w
        = (\<lparr> success = False, data = None, error = Some e, attempts = attempt + 1 \<rparr>, w1)"
    using retry_loop_reject_final[of attempt cfg fn w "ErrorObj e" w1 lastError]
    by (simp add: as_Error_def)
next
  fix fn :: "('s, 'a) operation" and options and w :: "'s world" and e s'
  assume m: "0 \<le> s_maxRetries (destructure options)"
    and f: "fn (op_state w) = (Rejects (ErrorObj e), s')"
    and n: "\<not> s_isRetryable (destructure options) (ErrorObj e)"
  show r: "retry fn options w
          = (\<lparr> success = False, data = None, error = Some e, attempts = 1 \<rparr>,
             w\<lparr>op_state := s'\<rparr>)"
    using retry_loop_reject_final[OF m invoke_eq[of fn w, OF f], of None] n
    by (simp add: retry_def as_Error_def)
  show "calls (snd (retry (counted fn) options (with_counter w 0))) = 1"
    using retry_counted[OF m, of fn w] r by simp
qed

theorem retry_non_retryable_error_returned_witness:
  "s_maxRetries (destructure (test_options\<lparr>isRetryable := Some (\<lambda>e. False)\<rparr>)) = 2
   \<and> retry (mock (Rejects (ErrorObj validation_error)) :: (string outcome list, string) operation)
         (test_options\<lparr>isRetryable := Some (\<lambda>e. False)\<rparr>) (fresh_world [])
       = (\<lparr> success = False, data = None, error = Some validation_error, attempts = 1 \<rparr>,
          fresh_world [])
   \<and> retry_loop (destructure (test_options\<lparr>isRetryable := Some (\<lambda>e. False)\<rparr>))
         (mock (Rejects (ErrorObj validation_error)) :: (string outcome list, string) operation)
         1 None (fresh_world [])
       = (\<lparr> success = False, data = None, error = Some validation_error, attempts = 2 \<rparr>,
          fresh_world [])"
proof -
  let ?opts = "test_options\<lparr>isRetryable := Some (\<lambda>e. False)\<rparr>"
  let ?fn = "mock (Rejects (ErrorObj validation_error)) :: (string outcome list, string) operation"
  have m: "s_maxRetries (destructure ?opts) = 2"
    and p: "\<not> s_isRetryable (destructure ?opts) (ErrorObj validation_error)"
    by (simp_all add: destructure_def test_options_def no_options_def or_default_def)
  have f: "?fn (op_state (fresh_world [])) = (Rejects (ErrorObj validation_error), [])"
    by (simp add: mock_def fresh_world_def)
  have i: "invoke ?fn (fresh_world []) = (Rejects (ErrorObj validation_error), fresh_world [])"
    by (simp add: invoke_def mock_def fresh_world_def)
  note claim = retry_non_retryable_error_returned
  note top = claim[THEN conjunct2, rule_format, of ?opts ?fn "fresh_world []" validation_error "[]"]
  note step = claim[THEN conjunct1, rule_format,
      of 1 "destructure ?opts" ?fn "fresh_world []" validation_error "fresh_world []" None]
  show ?thesis
    apply (intro conjI)
    subgoal by (rule m)
    subgoal using top m p f by (simp add: fresh_world_def)
    subgoal using step m p i by simp
    done
qed

subsection \<open>Claim C5: the backoff delay\<close>














lemma rng_backoff [simp]: "rng (backoff cfg a w) = rng w"
  by (simp add: backoff_def calculateDelay_def sleep_def Math_random_def Let_def)


















lemma fetch_failed_retryable [simp]: "defaultIsRetryable (ErrorObj fetch_failed)"
  by (simp add: defaultIsRetryable_def fetch_failed_def)








subsection \<open>Claim C6: a non-retryable response is a success\<close>

text \<open>
  Claim C6. When an attempt resolves with a response that is not ok and that
  \<open>isRetryableResponse\<close> does not flag, the executor succeeds with that response as data
  and stops, from any round of the loop. The default response predicate flags exactly the
  statuses from 500 up and 429, so with it every non-ok response below 500 other than 429
  (a 404, say) is returned as a success after one invocation.
\<close>

theorem retry_non_retryable_response_succeeds:
  "(\<forall>(cfg :: settings) (fn :: ('s, 'a) operation) attempt lastError (w :: 's world) r w1.
      attempt \<le> s_maxRetries cfg \<and> invoke fn w = (Resolves (IsResponse r), w1)
      \<and> \<not> ok r \<and> \<not> s_isRetryableResponse cfg r \<longrightarrow>
      retry_loop cfg fn attempt lastError w
        = (\<lparr> success = True, data = Some (IsResponse r), error = None,
             attempts = attempt + 1 \<rparr>, w1))
   \<and> (\<forall>r :: Response. defaultIsRetryableResponse r \<longleftrightarrow> status r \<ge> 500 \<or> status r = 429)
   \<and> (\<forall>options :: RetryOptions. isRetryableResponse options = None \<longrightarrow>
          s_isRetryableResponse (destructure options) = defaultIsRetryableResponse)
   \<and> (\<forall>(fn :: ('s, 'a) operation) options (w :: 's world) r s'.
        0 \<le> s_maxRetries (destructure options) \<and> isRetryableResponse options = None
        \<and> fn (op_state w) = (Resolves (IsResponse r), s')
        \<and> \<not> ok r \<and> status r < 500 \<and> status r \<noteq> 429 \<longrightarrow>
        retry fn options w
          = (\<lparr> success = True, data = Some (IsResponse r), error = None, attempts = 1 \<rparr>,
             w\<lparr>op_state := s'\<rparr>)
        \<and> calls (snd (retry (counted fn) options (with_counter w 0))) = 1)"
proof (intro conjI allI impI; (elim conjE)?)
  fix cfg :: settings and fn :: "('s, 'a) operation" and attempt lastError and w :: "'s world" and r w1
  assume "attempt \<le> s_maxRetries cfg" "invoke fn w = (Resolves (IsResponse r), w1)"
    "\<not> ok r" "\<not> s_isRetryableResponse cfg r"
  then show "retry_loop cfg fn attempt lastError w
        = (\<lparr> success = True, data = Some (IsResponse r), error = None,
             attempts = attempt + 1 \<rparr>, w1)"
    using retry_loop_success[of attempt cfg fn w "IsResponse r" w1 lastError]
    by (simp add: retryable_response_def)
next
  fix r :: Response show "defaultIsRetryableResponse r \<longleftrightarrow> status r \<ge> 500 \<or> status r = 429"
    by (simp add: defaultIsRetryableResponse_def)
next
  fix options :: RetryOptions assume "isRetryableResponse options = None"
  then show "s_isRetryableResponse (destructure options) = defaultIsRetryableResponse"
    by (rule default_response_predicate)
next
  fix fn :: "('s, 'a) operation" and options and w :: "'s world" and r s'
  assume m: "0 \<le> s_maxRetries (destructure options)" and d: "isRetryableResponse options = None"
    and f: "fn (op_state w) = (Resolves (IsResponse r), s')"
    and r: "\<not> ok r" "status r < 500" "status r \<noteq> 429"
  have n: "\<not> retryable_response (destructure options) (IsResponse r)"
    using r by (simp add: retryable_response_def default_response_predicate[OF d]
        defaultIsRetryableResponse_def)
  show e: "retry fn options w
          = (\<lparr> success = True, data = Some (IsResponse r), error = None, attempts = 1 \<rparr>,
             w\<lparr>op_state := s'\<rparr>)"
    by (rule retry_first_call_succeeds[where fn=fn and w=w, OF m f n])
  show "calls (snd (retry (counted fn) options (with_counter w 0))) = 1"
    using retry_counted[OF m, of fn w] e by simp
qed

theorem retry_non_retryable_response_succeeds_witness:
  "retry (mock (Resolves (Plain ''unused'')))
         test_options (fresh_world [Resolves (IsResponse \<lparr> status = 404, statusText = ''Not Found'' \<rparr>)])
       = (\<lparr> success = True,
            data = Some (IsResponse \<lparr> status = 404, statusText = ''Not Found'' \<rparr>),
            error = None, attempts = 1 \<rparr>,
          fresh_world [])
   \<and> \<not> ok \<lparr> status = 404, statusText = ''Not Found'' \<rparr>
   \<and> \<not> defaultIsRetryableResponse \<lparr> status = 404, statusText = ''Not Found'' \<rparr>
   \<and> defaultIsRetryableResponse \<lparr> status = 429, statusText = ''Too Many Requests'' \<rparr>
   \<and> retry_loop (destructure test_options) (mock (Resolves (Plain ''unused''))) 2 None
         (fresh_world [Resolves (IsResponse \<lparr> status = 404, statusText = ''Not Found'' \<rparr>)])
       = (\<lparr> success = True,
            data = Some (IsResponse \<lparr> status = 404, statusText = ''Not Found'' \<rparr>),
            error = None, attempts = 3 \<rparr>,
          fresh_world [])"
proof -
  let ?r = "\<lparr> status = 404, statusText = ''Not Found'' \<rparr>"
  let ?fn = "mock (Resolves (Plain ''unused''))"
  let ?w = "fresh_world [Resolves (IsResponse ?r)]"
  note claim = retry_non_retryable_response_succeeds
  note step = claim[THEN conjunct1, rule_format,
      of 2 "destructure test_options" ?fn ?w ?r "fresh_world []" None]
  note dflt = claim[THEN conjunct2, THEN conjunct1, rule_format]
  note top = claim[THEN conjunct2, THEN conjunct2, THEN conjunct2, rule_format,
      of test_options ?fn ?w ?r "[]"]
  have i: "invoke ?fn ?w = (Resolves (IsResponse ?r), fresh_world [])"
    by (simp add: invoke_def mock_def fresh_world_def)
  show ?thesis
    apply (intro conjI)
    subgoal using top by (simp add: mock_def fresh_world_def ok_def)
    subgoal by (simp add: ok_def)
    subgoal using dflt[of ?r] by simp
    subgoal using dflt[of "\<lparr> status = 429, statusText = ''Too Many Requests'' \<rparr>"] by simp
    subgoal using step i by (simp add: ok_def defaultIsRetryableResponse_def)
    done
qed

section \<open>Properties of the nutrient value normalizer\<close>

subsection \<open>Claim C9: merging prefers non-zero values, field by field\<close>

lemma js_or_nonzero:
  "\<not> isNaN a \<Longrightarrow> js_or a b = (if a \<noteq> Fin 0 then a else b)"
  by (cases a) (auto simp: js_or_def)

lemma js_or_opt_nonzero:
  "a \<noteq> Some NaN \<Longrightarrow> js_or_opt a b = (if zero_or_absent a then b else a)"
  by (cases a; cases "the a") (auto simp: js_or_opt_def zero_or_absent_def)

lemma merge_fields:
  assumes "no_NaN_fields primary"
  shows "calories (mergeNutrition primary fallback)
        = (if calories primary \<noteq> Fin 0 then calories primary else calories fallback)
      \<and> protein (mergeNutrition primary fallback)
        = (if protein primary \<noteq> Fin 0 then protein primary else protein fallback)
      \<and> carbs (mergeNutrition primary fallback)
        = (if carbs primary \<noteq> Fin 0 then carbs primary else carbs fallback)
      \<and> fat (mergeNutrition primary fallback)
        = (if fat primary \<noteq> Fin 0 then fat primary else fat fallback)
      \<and> fiber (mergeNutrition primary fallback)
        = (if zero_or_absent (fiber primary) then fiber fallback else fiber primary)"
  using assms
  by (simp add: mergeNutrition_def no_NaN_fields_def js_or_nonzero js_or_opt_nonzero)

lemma merge_empty_primary:
  assumes "isNutritionEmpty primary"
  shows "calories (mergeNutrition primary fallback) = calories fallback
        \<and> protein (mergeNutrition primary fallback) = protein fallback
        \<and> carbs (mergeNutrition primary fallback) = carbs fallback
        \<and> fat (mergeNutrition primary fallback) = fat fallback"
  using assms by (simp add: mergeNutrition_def isNutritionEmpty_def js_or_def)

lemma merge_left_identity:
  assumes "isNutritionEmpty primary \<and> zero_or_absent (fiber primary)"
  shows "mergeNutrition primary fallback = fallback"
  using assms
  by (cases fallback)
     (auto simp: mergeNutrition_def isNutritionEmpty_def zero_or_absent_def js_or_def js_or_opt_def)

text \<open>
  Claim C9. For every primary record without \<open>NaN\<close> fields (so for every record of the
  data model) and every fallback, each field of \<open>mergeNutrition primary fallback\<close> is the
  primary's value when that is non-zero and the fallback's otherwise, field by field; a
  missing \<open>fiber\<close> counts as zero. Hence a primary whose four core fields are zero yields
  the fallback's core fields, and the whole fallback when its fiber is zero or missing.
\<close>

theorem mergeNutrition_per_field:
  "(\<forall>primary fallback. no_NaN_fields primary \<longrightarrow>
      calories (mergeNutrition primary fallback)
        = (if calories primary \<noteq> Fin 0 then calories primary else calories fallback)
      \<and> protein (mergeNutrition primary fallback)
        = (if protein primary \<noteq> Fin 0 then protein primary else protein fallback)
      \<and> carbs (mergeNutrition primary fallback)
        = (if carbs primary \<noteq> Fin 0 then carbs primary else carbs fallback)
      \<and> fat (mergeNutrition primary fallback)
        = (if fat primary \<noteq> Fin 0 then fat primary else fat fallback)
      \<and> fiber (mergeNutrition primary fallback)
        = (if zero_or_absent (fiber primary) then fiber fallback else fiber primary))
   \<and> (\<forall>primary fallback. isNutritionEmpty primary \<longrightarrow>
        calories (mergeNutrition primary fallback) = calories fallback
        \<and> protein (mergeNutrition primary fallback) = protein fallback
        \<and> carbs (mergeNutrition primary fallback) = carbs fallback
        \<and> fat (mergeNutrition primary fallback) = fat fallback)
   \<and> (\<forall>primary fallback. isNutritionEmpty primary \<and> zero_or_absent (fiber primary) \<longrightarrow>
        mergeNutrition primary fallback = fallback)"
proof -
  have a: "\<And>primary fallback. no_NaN_fields primary \<Longrightarrow>
      calories (mergeNutrition primary fallback)
        = (if calories primary \<noteq> Fin 0 then calories primary else calories fallback)
      \<and> protein (mergeNutrition primary fallback)
        = (if protein primary \<noteq> Fin 0 then protein primary else protein fallback)
      \<and> carbs (mergeNutrition primary fallback)
        = (if carbs primary \<noteq> Fin 0 then carbs primary else carbs fallback)
      \<and> fat (mergeNutrition primary fallback)
        = (if fat primary \<noteq> Fin 0 then fat primary else fat fallback)
      \<and> fiber (mergeNutrition primary fallback)
        = (if zero_or_absent (fiber primary) then fiber fallback else fiber primary)"
    by (rule merge_fields)
  have b: "\<And>primary fallback. isNutritionEmpty primary \<Longrightarrow>
        calories (mergeNutrition primary fallback) = calories fallback
        \<and> protein (mergeNutrition primary fallback) = protein fallback
        \<and> carbs (mergeNutrition primary fallback) = carbs fallback
        \<and> fat (mergeNutrition primary fallback) = fat fallback"
    by (rule merge_empty_primary)
  have c: "\<And>primary fallback. isNutritionEmpty primary \<and> zero_or_absent (fiber primary) \<Longrightarrow>
        mergeNutrition primary fallback = fallback"
    by (rule merge_left_identity)
  from a b c show ?thesis by blast
qed

theorem mergeNutrition_per_field_witness:
  "no_NaN_fields partial_primary
   \<and> mergeNutrition partial_primary full_fallback
       = \<lparr> calories = Fin 200, protein = Fin 20, carbs = Fin 30, fat = Fin 10,
           fiber = Some (Fin 4) \<rparr>
   \<and> isNutritionEmpty zero_nutrition \<and> zero_or_absent (fiber zero_nutrition)
   \<and> mergeNutrition zero_nutrition full_fallback = full_fallback"
proof -
  note claim = mergeNutrition_per_field
  have v: "no_NaN_fields partial_primary"
    by (simp add: no_NaN_fields_def partial_primary_def)
  have e: "isNutritionEmpty zero_nutrition \<and> zero_or_absent (fiber zero_nutrition)"
    by (simp add: isNutritionEmpty_def zero_nutrition_def zero_or_absent_def)
  note fields = claim[THEN conjunct1, rule_format, OF v, of full_fallback]
  note ident = claim[THEN conjunct2, THEN conjunct2, rule_format, OF e, of full_fallback]
  have "mergeNutrition partial_primary full_fallback
       = \<lparr> calories = Fin 200, protein = Fin 20, carbs = Fin 30, fat = Fin 10,
           fiber = Some (Fin 4) \<rparr>"
    using fields
    by (cases "mergeNutrition partial_primary full_fallback")
       (simp add: partial_primary_def full_fallback_def zero_or_absent_def)
  with v e ident show ?thesis by simp
qed

subsection \<open>Claim C8: the first present alias of each field\<close>

lemma parse_nullish_value [simp]:
  "parseNutritionNumber Undefined = Fin 0" "parseNutritionNumber Null = Fin 0"
  by (simp_all add: parseNutritionNumber_def)

lemma parse_finite_number:
  "parseNutritionNumber (Num (Fin x)) = Fin (max 0 (of_int \<lfloor>x + 1 / 2\<rfloor>))"
  by (simp add: parseNutritionNumber_def)

lemma parse_nullish_chain:
  "parseNutritionNumber (nullish (get_prop raw key) rest)
     = (case get_prop raw key of
          Undefined \<Rightarrow> parseNutritionNumber rest
        | Null \<Rightarrow> parseNutritionNumber rest
        | v \<Rightarrow> parseNutritionNumber v)"
  by (simp add: nullish_def split: js_value.splits)

lemma parse_first_present_Cons:
  "parseNutritionNumber (first_present raw (key # keys))
     = (case get_prop raw key of
          Undefined \<Rightarrow> parseNutritionNumber (first_present raw keys)
        | Null \<Rightarrow> parseNutritionNumber (first_present raw keys)
        | v \<Rightarrow> parseNutritionNumber v)"
  by (simp split: js_value.splits)

lemma parse_first_present_last:
  "parseNutritionNumber (first_present raw [key]) = parseNutritionNumber (get_prop raw key)"
  by (simp split: js_value.splits)

lemma normalize_as_first_present:
  "normalizeNutritionData raw =
     \<lparr> calories = parseNutritionNumber
         (first_present raw [''calories'', ''kalori'', ''total_calories'', ''estimasi_kalori'']),
       protein = parseNutritionNumber
         (first_present raw [''protein'', ''protein_g'', ''protein_grams'', ''protein_gram'']),
       carbs = parseNutritionNumber
         (first_present raw
            [''carbs'', ''karbohidrat'', ''karbohidrat_g'', ''carbs_grams'', ''carbs_g'']),
       fat = parseNutritionNumber
         (first_present raw [''fat'', ''lemak'', ''lemak_g'', ''fat_grams'', ''fat_g'']),
       fiber = Some (parseNutritionNumber
         (first_present raw [''fiber'', ''serat'', ''fiber_g''])) \<rparr>"
  unfolding normalizeNutritionData_def
  by (simp only: parse_nullish_chain parse_first_present_Cons[where keys="_ # _"]
        parse_first_present_last)

text \<open>
  Claim C8. For every loosely typed record, each field of \<open>normalizeNutritionData\<close> is
  \<open>parseNutritionNumber\<close> of the first alias, in the fixed order of the source, whose value
  is present (neither \<open>undefined\<close> nor \<open>null\<close>); all five fields are set, and
  \<open>fiber\<close> is 0 when no fiber alias is present. The record with the Indonesian aliases
  \<open>kalori: 200, protein_g: 20, karbohidrat: 30, lemak: 10\<close> gives
  \<open>calories: 200, protein: 20, carbs: 30, fat: 10\<close>.
\<close>

theorem normalizeNutritionData_first_alias:
  "(\<forall>raw. normalizeNutritionData raw =
     \<lparr> calories = parseNutritionNumber
         (first_present raw [''calories'', ''kalori'', ''total_calories'', ''estimasi_kalori'']),
       protein = parseNutritionNumber
         (first_present raw [''protein'', ''protein_g'', ''protein_grams'', ''protein_gram'']),
       carbs = parseNutritionNumber
         (first_present raw
            [''carbs'', ''karbohidrat'', ''karbohidrat_g'', ''carbs_grams'', ''carbs_g'']),
       fat = parseNutritionNumber
         (first_present raw [''fat'', ''lemak'', ''lemak_g'', ''fat_grams'', ''fat_g'']),
       fiber = Some (parseNutritionNumber
         (first_present raw [''fiber'', ''serat'', ''fiber_g''])) \<rparr>)
   \<and> (\<forall>raw. raw ''fiber'' = None \<and> raw ''serat'' = None \<and> raw ''fiber_g'' = None \<longrightarrow>
          fiber (normalizeNutritionData raw) = Some (Fin 0))
   \<and> normalizeNutritionData indonesian_raw
       = \<lparr> calories = Fin 200, protein = Fin 20, carbs = Fin 30, fat = Fin 10,
           fiber = Some (Fin 0) \<rparr>"
proof (intro conjI allI impI)
  fix raw show "normalizeNutritionData raw =
     \<lparr> calories = parseNutritionNumber
         (first_present raw [''calories'', ''kalori'', ''total_calories'', ''estimasi_kalori'']),
       protein = parseNutritionNumber
         (first_present raw [''protein'', ''protein_g'', ''protein_grams'', ''protein_gram'']),
       carbs = parseNutritionNumber
         (first_present raw
            [''carbs'', ''karbohidrat'', ''karbohidrat_g'', ''carbs_grams'', ''carbs_g'']),
       fat = parseNutritionNumber
         (first_present raw [''fat'', ''lemak'', ''lemak_g'', ''fat_grams'', ''fat_g'']),
       fiber = Some (parseNutritionNumber
         (first_present raw [''fiber'', ''serat'', ''fiber_g''])) \<rparr>"
    by (rule normalize_as_first_present)
next
  fix raw :: raw_record
  assume "raw ''fiber'' = None \<and> raw ''serat'' = None \<and> raw ''fiber_g'' = None"
  then show "fiber (normalizeNutritionData raw) = Some (Fin 0)"
    by (simp add: normalize_as_first_present get_prop_def)
next
  show "normalizeNutritionData indonesian_raw
       = \<lparr> calories = Fin 200, protein = Fin 20, carbs = Fin 30, fat = Fin 10,
           fiber = Some (Fin 0) \<rparr>"
    by (simp add: normalize_as_first_present get_prop_def indonesian_raw_def parse_finite_number)
qed

theorem normalizeNutritionData_first_alias_witness:
  "indonesian_raw ''fiber'' = None \<and> indonesian_raw ''serat'' = None
   \<and> indonesian_raw ''fiber_g'' = None
   \<and> fiber (normalizeNutritionData indonesian_raw) = Some (Fin 0)
   \<and> calories (normalizeNutritionData indonesian_raw) = Fin 200"
proof -
  note claim = normalizeNutritionData_first_alias
  have a: "indonesian_raw ''fiber'' = None \<and> indonesian_raw ''serat'' = None
      \<and> indonesian_raw ''fiber_g'' = None"
    by (simp add: indonesian_raw_def)
  from claim[THEN conjunct2, THEN conjunct1, rule_format, OF a]
    claim[THEN conjunct2, THEN conjunct2] a
  show ?thesis by simp
qed

subsection \<open>The matcher on character sets and greedy repetition\<close>

text \<open>
  The matcher equations are taken out of the simplifier and used by name: the one for the
  star rewrites itself.
\<close>

lemmas ms_Eps = ms.simps(1) and ms_Seq = ms.simps(3) and ms_Alt = ms.simps(4)
  and ms_Opt = ms.simps(5) and ms_Star = ms.simps(6) and ms_Cap = ms.simps(7)

lemma starts_simps [simp]: "starts P [] = False" "starts P (c # t) = P c"
  by (simp_all add: starts_def)

lemma in_class_digit [simp]: "in_class i [48, 49, 50, 51, 52, 53, 54, 55, 56, 57] c = is_digit c"
  by (auto simp: in_class_def canon_def is_digit_def; arith)

lemma in_class_space [simp]: "in_class i white_space c = is_space c"
  by (auto simp: in_class_def is_space_def canon_def white_space_def)

lemma in_class_digit_fun [simp]: "in_class i [48, 49, 50, 51, 52, 53, 54, 55, 56, 57] = is_digit"
  by (rule ext) simp

lemma in_class_space_fun [simp]: "in_class i white_space = is_space"
  by (rule ext) simp

lemma in_class_single:
  "in_class i [x] c = (canon i c = canon i x)"
  by (simp add: in_class_def)

lemma ms_Cls: 
  "ms i (Cls xs) (s, cs) = (case s of [] \<Rightarrow> [] | c # t \<Rightarrow> if in_class i xs c then [(t, cs)] else [])"
  by (simp add: in_class_def split: list.splits)

declare ms.simps [simp del]

lemma ms_Star_Cls:
  "ms i (Star (Cls xs)) (s, cs) = map (\<lambda>t. (t, cs)) (star_rests (in_class i xs) s)"
  by (induction s) (simp_all add: ms_Star ms_Cls)

lemma star_rests_nonempty [simp]: "star_rests P s \<noteq> []"
  by (cases s) auto

lemma hd_star_rests: "hd (star_rests P s) = dropWhile P s"
  by (induction s) auto

lemma tl_star_rests: "u \<in> set (tl (star_rests P s)) \<Longrightarrow> starts P u"
  by (induction s) (auto split: if_splits)

lemma star_rests_split: "star_rests P s = dropWhile P s # tl (star_rests P s)"
  using hd_star_rests[of P s] star_rests_nonempty[of P s] by (cases "star_rests P s") auto

lemma map_star_rests:
  "map f (star_rests P s) = f (dropWhile P s) # map f (tl (star_rests P s))"
  by (subst star_rests_split) simp

lemma star_rests_none: "\<not> starts P s \<Longrightarrow> star_rests P s = [s]"
  by (cases s) auto

lemma star_rests_second:
  "takeWhile P s \<noteq> [] \<Longrightarrow>
   \<exists>more. star_rests P s = dropWhile P s # (last (takeWhile P s) # dropWhile P s) # more"
proof (induction s)
  case Nil
  then show ?case by simp
next
  case (Cons c t)
  then have c: "P c" by (auto split: if_splits)
  show ?case
  proof (cases "takeWhile P t = []")
    case True
    then have "\<not> starts P t" by (cases t) (auto split: if_splits)
    then have "star_rests P t = [t]" "dropWhile P t = t"
      by (simp_all add: star_rests_none) (cases t; simp)
    with c True show ?thesis by simp
  next
    case False
    from Cons.IH[OF this] obtain more where
      "star_rests P t = dropWhile P t # (last (takeWhile P t) # dropWhile P t) # more" by blast
    with c False show ?thesis by simp
  qed
qed

lemma ms_Plus_Cls:
  "ms i (Plus (Cls xs)) (s, cs)
     = (case s of [] \<Rightarrow> []
        | c # t \<Rightarrow> if in_class i xs c
                   then map (\<lambda>u. (u, cs)) (star_rests (in_class i xs) t) else [])"
  by (cases s) (simp_all add: Plus_def ms_Seq ms_Cls ms_Star_Cls)

lemma concat_map_single:
  "(\<And>x. x \<in> set xs \<Longrightarrow> f x = [g x]) \<Longrightarrow> concat (map f xs) = map g xs"
  by (induction xs) auto

lemma concat_map_empty:
  "(\<And>x. x \<in> set xs \<Longrightarrow> f x = []) \<Longrightarrow> concat (map f xs) = []"
  by (induction xs) auto

lemma ms_Seq_first:
  "ms i a st = x # others \<Longrightarrow> \<forall>y \<in> set others. ms i b y = [] \<Longrightarrow>
   ms i (Seq a b) st = ms i b x"
  by (simp add: ms_Seq)

lemma ms_Seq_nil: "ms i a st = [] \<Longrightarrow> ms i (Seq a b) st = []"
  by (simp add: ms_Seq)

subsection \<open>The decimal pattern\<close>

lemma not_space_digit: "is_digit c \<Longrightarrow> \<not> is_space c"
  by (auto simp: is_digit_def is_space_def white_space_def)

lemma not_space_46 [simp]: "\<not> is_space 46" "\<not> is_digit 46" "\<not> is_space 45" "\<not> is_space 43"
  "\<not> is_digit 45" "\<not> is_digit 43"
  by (simp_all add: is_space_def white_space_def is_digit_def)

lemma in_class_punct [simp]:
  "in_class i [46] c = (c = 46)" "in_class i [45] c = (c = 45)"
  "in_class i [8211] c = (c = 8211)" "in_class i [8212] c = (c = 8212)"
  "in_class i [45, 43] c = (c = 45 \<or> c = 43)"
  by (auto simp: in_class_def canon_def)

lemma in_class_to [simp]:
  "in_class True [116] c = (c = 116 \<or> c = 84)" "in_class True [111] c = (c = 111 \<or> c = 79)"
  by (auto simp: in_class_def canon_def)

lemma star_rests_length: "v \<in> set (star_rests P r) \<Longrightarrow> length v \<le> length r"
  by (induction r) (auto split: if_splits)

lemma fraction_at_simps [simp]:
  "fraction_at [] = []" "fraction_at [c] = []"
  "fraction_at (c # d # r) = (if c = 46 \<and> is_digit d then c # d # takeWhile is_digit r else [])"
  by (simp_all add: fraction_at_def)

lemma fraction_at_digit [simp]: "is_digit c \<Longrightarrow> fraction_at (c # r) = []"
  by (cases r) auto

lemma ms_fraction:
  "ms i (Opt (Seq (Cls [46]) (Plus digit))) (r, cs)
     = (if fraction_at r = [] then [(r, cs)]
        else map (\<lambda>v. (v, cs)) (star_rests is_digit (drop 2 r)) @ [(r, cs)])"
proof (cases r)
  case Nil
  then show ?thesis by (simp add: ms_Opt ms_Seq ms_Cls)
next
  case (Cons c t)
  show ?thesis
  proof (cases t)
    case Nil
    with Cons show ?thesis by (simp add: ms_Opt ms_Seq ms_Cls ms_Plus_Cls digit_def)
  next
    case (Cons d t')
    have "filter (\<lambda>st'. length (fst st') < Suc (Suc (length t')))
            (map (\<lambda>u. (u, cs)) (star_rests is_digit t'))
          = map (\<lambda>u. (u, cs)) (star_rests is_digit t')"
      using star_rests_length[of _ is_digit t']
      by (fastforce simp: filter_id_conv less_Suc_eq_le)
    with Cons \<open>r = c # t\<close> show ?thesis
      by (simp add: ms_Opt ms_Seq ms_Cls ms_Plus_Cls digit_def)
  qed
qed

lemma after_fraction_none [simp]: "fraction_at r = [] \<Longrightarrow> after_fraction r = r"
  by (simp add: after_fraction_def)

lemma after_fraction_some:
  "fraction_at r \<noteq> [] \<Longrightarrow> after_fraction r = dropWhile is_digit (drop 2 r)"
  by (cases r; cases "tl r")
     (auto simp: after_fraction_def dropWhile_eq_drop split: if_splits)

lemma fraction_starts_dot: "fraction_at r \<noteq> [] \<Longrightarrow> starts digit_or_dot r"
  by (cases r; cases "tl r") (auto simp: digit_or_dot_def split: if_splits)

lemma starts_digit_or_dot: "starts is_digit u \<Longrightarrow> starts digit_or_dot u"
  by (cases u) (auto simp: digit_or_dot_def)

lemma starts_digit_no_fraction: "starts is_digit u \<Longrightarrow> fraction_at u = []"
  by (cases u) auto

lemma ms_decimal_fail: "\<not> starts is_digit s \<Longrightarrow> ms i decimal (s, cs) = []"
  by (cases s) (simp_all add: decimal_def ms_Seq ms_Plus_Cls digit_def)

lemma ms_decimal:
  assumes "starts is_digit s"
  shows "\<exists>others. ms i decimal (s, cs) = (after_fraction (dropWhile is_digit s), cs) # others
           \<and> (\<forall>y \<in> set others. snd y = cs \<and> starts digit_or_dot (fst y))"
proof -
  let ?F = "Opt (Seq (Cls [46]) (Plus digit))"
  from assms obtain c t where s: "s = c # t" and c: "is_digit c" by (cases s) auto
  let ?r = "dropWhile is_digit t"
  let ?tl = "tl (star_rests is_digit t)"
  have r: "dropWhile is_digit s = ?r" using s c by simp
  have plus: "ms i (Plus digit) (s, cs) = (?r, cs) # map (\<lambda>u. (u, cs)) ?tl"
    using s c by (simp add: ms_Plus_Cls digit_def map_star_rests)
  have tl_F: "concat (map (ms i ?F) (map (\<lambda>u. (u, cs)) ?tl)) = map (\<lambda>u. (u, cs)) ?tl"
  proof -
    have "\<And>u. u \<in> set ?tl \<Longrightarrow> ms i ?F (u, cs) = [(u, cs)]"
      using tl_star_rests[of _ is_digit t] by (simp add: ms_fraction starts_digit_no_fraction)
    then have "concat (map (\<lambda>u. ms i ?F (u, cs)) ?tl) = map (\<lambda>u. (u, cs)) ?tl"
      by (rule concat_map_single)
    then show ?thesis by (simp add: comp_def)
  qed
  have all: "ms i decimal (s, cs) = ms i ?F (?r, cs) @ map (\<lambda>u. (u, cs)) ?tl"
    using plus tl_F by (simp add: decimal_def ms_Seq)
  have tl_ok: "\<forall>y \<in> set (map (\<lambda>u. (u, cs)) ?tl). snd y = cs \<and> starts digit_or_dot (fst y)"
    using tl_star_rests[of _ is_digit t] by (auto intro: starts_digit_or_dot)
  show ?thesis
  proof (cases "fraction_at ?r = []")
    case True
    then show ?thesis using all tl_ok r by (simp add: ms_fraction)
  next
    case False
    let ?t2 = "star_rests is_digit (drop 2 ?r)"
    have "ms i ?F (?r, cs) = (after_fraction ?r, cs) # (map (\<lambda>v. (v, cs)) (tl ?t2) @ [(?r, cs)])"
      using False by (simp add: ms_fraction after_fraction_some map_star_rests)
    moreover have "\<forall>y \<in> set (map (\<lambda>v. (v, cs)) (tl ?t2) @ [(?r, cs)]).
                      snd y = cs \<and> starts digit_or_dot (fst y)"
      using tl_star_rests[of _ is_digit "drop 2 ?r"] fraction_starts_dot[OF False]
      by (auto intro: starts_digit_or_dot)
    ultimately show ?thesis using all tl_ok r by auto
  qed
qed

subsection \<open>The range pattern finds the range of the specification\<close>

lemma ms_separator:
  "ms True separator (u, cs)
     = (case separator_at u of None \<Rightarrow> [] | Some t \<Rightarrow> [(drop (length t) u, cs)])"
  by (cases u; cases "tl u")
     (auto simp: separator_def separator_at_def ascii_def ms_Alt ms_Seq ms_Cls ms_Eps)

lemma separator_at_space: "starts is_space v \<Longrightarrow> separator_at v = None"
  by (cases v) (auto simp: separator_at_def is_space_def white_space_def)

lemma separator_at_digit_or_dot: "starts digit_or_dot v \<Longrightarrow> separator_at v = None"
  by (cases v) (auto simp: separator_at_def digit_or_dot_def is_digit_def)

lemma ms_skip_spaces:
  assumes "\<And>v c. starts is_space v \<Longrightarrow> ms i b (v, c) = []"
  shows "ms i (Seq (Star space) b) (u, cs) = ms i b (dropWhile is_space u, cs)"
proof -
  have "ms i (Star space) (u, cs)
          = (dropWhile is_space u, cs) # map (\<lambda>t. (t, cs)) (tl (star_rests is_space u))"
    by (simp add: space_def ms_Star_Cls map_star_rests)
  moreover have "\<forall>y \<in> set (map (\<lambda>t. (t, cs)) (tl (star_rests is_space u))). ms i b y = []"
    using tl_star_rests[of _ is_space u] assms by auto
  ultimately show ?thesis by (rule ms_Seq_first)
qed

lemma dropWhile_space_digit_or_dot:
  "starts digit_or_dot u \<Longrightarrow> dropWhile is_space u = u"
  by (cases u) (auto simp: digit_or_dot_def not_space_digit)

lemma starts_space_not_digit: "starts is_space v \<Longrightarrow> \<not> starts is_digit v"
  by (cases v) (auto simp: not_space_digit)

lemma take_fraction: "take (length (fraction_at r)) r = fraction_at r"
  by (cases r; cases "tl r") (auto simp: takeWhile_eq_take[symmetric])

lemma split_facts:
  "s = a @ r \<Longrightarrow> drop (length a) s = r \<and> take (length s - length r) s = a"
  by simp

lemma decimal_at_split:
  assumes "decimal_at s = Some a"
  shows "s = a @ after_fraction (dropWhile is_digit s)"
proof -
  from assms have a: "a = takeWhile is_digit s @ fraction_at (dropWhile is_digit s)"
    by (auto simp: decimal_at_def split: if_splits)
  have "dropWhile is_digit s
          = fraction_at (dropWhile is_digit s) @ after_fraction (dropWhile is_digit s)"
    unfolding after_fraction_def
    by (metis append_take_drop_id take_fraction)
  then show ?thesis unfolding a by (metis append.assoc takeWhile_dropWhile_id)
qed

lemma ms_Cap_decimal_fail: "\<not> starts is_digit s \<Longrightarrow> ms i (Cap n decimal) (s, cs) = []"
  by (simp add: ms_Cap ms_decimal_fail)

lemma ms_Cap_decimal:
  assumes "decimal_at s = Some a"
  shows "\<exists>others. ms i (Cap n decimal) (s, cs) = (drop (length a) s, (n, a) # cs) # others
           \<and> (\<forall>y \<in> set others. starts digit_or_dot (fst y))"
proof -
  from assms have st: "starts is_digit s"
    and a: "a = takeWhile is_digit s @ fraction_at (dropWhile is_digit s)"
    by (auto simp: decimal_at_def split: if_splits)
  from ms_decimal[OF st, of i cs] obtain others where
    d: "ms i decimal (s, cs) = (after_fraction (dropWhile is_digit s), cs) # others"
    and o: "\<forall>y \<in> set others. snd y = cs \<and> starts digit_or_dot (fst y)" by blast
  note sp = split_facts[OF decimal_at_split[OF assms]]
  have "ms i (Cap n decimal) (s, cs)
          = (drop (length a) s, (n, a) # cs)
            # map (\<lambda>(s', cs'). (s', (n, take (length s - length s') s) # cs')) others"
    using d sp by (simp add: ms_Cap)
  moreover have "\<forall>y \<in> set (map (\<lambda>(s', cs'). (s', (n, take (length s - length s') s) # cs')) others).
                    starts digit_or_dot (fst y)"
    using o by auto
  ultimately show ?thesis by blast
qed

lemma decimal_at_None: "decimal_at s = None \<longleftrightarrow> \<not> starts is_digit s"
  by (simp add: decimal_at_def)

lemma range_re_unfold: "range_re = Seq (Cap 1 decimal) (Seq (Star space) range_tail1)"
  by (simp add: range_re_def range_tail1_def range_tail2_def)

lemma ms_range_tail2:
  "ms True range_tail2 (u, c) = ms True (Cap 2 decimal) (dropWhile is_space u, c)"
  unfolding range_tail2_def
  by (rule ms_skip_spaces) (simp add: ms_Cap_decimal_fail starts_space_not_digit)

lemma ms_range_tail1:
  "ms True range_tail1 (v, c)
     = (case separator_at v of
          None \<Rightarrow> []
        | Some t \<Rightarrow> ms True (Cap 2 decimal) (dropWhile is_space (drop (length t) v), c))"
  by (simp add: range_tail1_def ms_Seq ms_separator ms_range_tail2 split: option.splits)

lemma ms_range_middle:
  "ms True (Seq (Star space) range_tail1) (u, c) = ms True range_tail1 (dropWhile is_space u, c)"
  by (rule ms_skip_spaces) (simp add: ms_range_tail1 separator_at_space)

lemma ms_range_middle_fail:
  "starts digit_or_dot u \<Longrightarrow> ms True (Seq (Star space) range_tail1) (u, c) = []"
  by (simp add: ms_range_middle ms_range_tail1 dropWhile_space_digit_or_dot
        separator_at_digit_or_dot)

lemma ms_range_re_None:
  assumes "range_at s = None"
  shows "ms True range_re (s, []) = []"
proof (cases "decimal_at s")
  case None
  then show ?thesis
    by (simp add: range_re_unfold ms_Seq_nil ms_Cap_decimal_fail decimal_at_None)
next
  case (Some a)
  from ms_Cap_decimal[OF Some, of True 1 "[]"] obtain others where
    c: "ms True (Cap 1 decimal) (s, []) = (drop (length a) s, [(1, a)]) # others"
    and o: "\<forall>y \<in> set others. starts digit_or_dot (fst y)" by blast
  have "\<forall>y \<in> set others. ms True (Seq (Star space) range_tail1) y = []"
    using o ms_range_middle_fail by (metis prod.collapse)
  from ms_Seq_first[OF c this]
  have "ms True range_re (s, [])
          = ms True range_tail1 (dropWhile is_space (drop (length a) s), [(1, a)])"
    by (simp add: range_re_unfold ms_range_middle)
  also have "\<dots> = []"
    using assms Some
    by (auto simp: range_at_def after_separator_def ms_range_tail1 Let_def
             ms_Cap_decimal_fail decimal_at_None split: option.splits)
  finally show ?thesis .
qed

lemma ms_range_re_Some:
  assumes "range_at s = Some (a, b)"
  shows "\<exists>rest others. ms True range_re (s, []) = (rest, [(2, b), (1, a)]) # others"
proof -
  let ?r = "dropWhile is_space (drop (length a) s)"
  from assms have a: "decimal_at s = Some a"
    by (auto simp: range_at_def split: option.splits)
  from assms a obtain sep where sep: "separator_at ?r = Some sep"
    and b: "decimal_at (dropWhile is_space (drop (length sep) ?r)) = Some b"
    by (auto simp: range_at_def after_separator_def Let_def split: option.splits)
  from ms_Cap_decimal[OF a, of True 1 "[]"] obtain others where
    c: "ms True (Cap 1 decimal) (s, []) = (drop (length a) s, [(1, a)]) # others"
    and o: "\<forall>y \<in> set others. starts digit_or_dot (fst y)" by blast
  have "\<forall>y \<in> set others. ms True (Seq (Star space) range_tail1) y = []"
    using o ms_range_middle_fail by (metis prod.collapse)
  from ms_Seq_first[OF c this]
  have "ms True range_re (s, []) = ms True range_tail1 (?r, [(1, a)])"
    by (simp add: range_re_unfold ms_range_middle)
  also have "\<dots> = ms True (Cap 2 decimal)
                      (dropWhile is_space (drop (length sep) ?r), [(1, a)])"
    using sep by (simp add: ms_range_tail1)
  finally show ?thesis
    using ms_Cap_decimal[OF b, of True 2 "[(1, a)]"] by auto
qed

lemma match_here_range_re:
  "map_option groups (match_here True range_re s)
     = map_option (\<lambda>(a, b). [(2, b), (1, a)]) (range_at s)"
proof (cases "range_at s")
  case None
  then show ?thesis by (simp add: match_here_def ms_range_re_None)
next
  case (Some ab)
  obtain a b where ab: "ab = (a, b)" by (cases ab)
  from ms_range_re_Some[OF Some[unfolded ab]] Some ab
  show ?thesis by (auto simp: match_here_def)
qed

lemma match_find_first: "match i r s = find_first (match_here i r) s"
  by (induction s) (simp_all split: option.splits)

lemma find_first_map_option:
  "find_first (\<lambda>s. map_option g (f s)) s = map_option g (find_first f s)"
proof (induction s)
  case Nil
  show ?case by simp
next
  case (Cons c t)
  show ?case by (cases "f (c # t)") (simp_all add: Cons.IH)
qed

lemma find_first_cong:
  assumes "\<And>u. map_option g (f u) = map_option h (f' u)"
  shows "map_option g (find_first f s) = map_option h (find_first f' s)"
proof -
  have "(\<lambda>s. map_option g (f s)) = (\<lambda>s. map_option h (f' s))" using assms by (rule ext)
  then show ?thesis
    using find_first_map_option[of g f s] find_first_map_option[of h f' s] by simp
qed

lemma match_range_re:
  "map_option groups (match True range_re s)
     = map_option (\<lambda>(a, b). [(2, b), (1, a)]) (find_first range_at s)"
  unfolding match_find_first by (rule find_first_cong) (rule match_here_range_re)

subsection \<open>The number pattern finds the number of the specification\<close>

lemma number_re_unfold: "number_re = Seq (Opt (Cls [45, 43])) number_body"
  by (simp add: number_re_def number_body_def number_tail_def)

lemma ms_Plus_digit_fail: "\<not> starts is_digit v \<Longrightarrow> ms i (Plus digit) (v, cs) = []"
  by (cases v) (simp_all add: digit_def ms_Plus_Cls)

lemma ms_Plus_digit:
  "starts is_digit v \<Longrightarrow> \<exists>others. ms i (Plus digit) (v, cs) = (dropWhile is_digit v, cs) # others"
  by (cases v) (simp_all add: digit_def ms_Plus_Cls map_star_rests)

lemma ms_number_tail:
  "ms False number_tail (u, cs)
     = ms False (Plus digit) (if starts (\<lambda>c. c = 46) u then tl u else u, cs)"
proof (cases u)
  case Nil
  then show ?thesis by (simp add: number_tail_def ms_Seq ms_Opt ms_Cls)
next
  case (Cons c u')
  then show ?thesis
    by (simp add: number_tail_def ms_Seq ms_Opt ms_Cls ms_Plus_digit_fail)
qed

lemma not_starts_dropWhile [simp]: "\<not> starts P (dropWhile P t)"
  by (induction t) auto

lemma ms_number_tail_fail:
  assumes "\<not> starts is_digit r" "fraction_at r = []"
  shows "ms False number_tail (r, cs) = []"
proof (cases "starts (\<lambda>c. c = 46) r")
  case True
  then obtain u' where r: "r = 46 # u'" by (cases r) auto
  with assms(2) have "\<not> starts is_digit u'" by (cases u') (auto split: if_splits)
  with r show ?thesis by (simp add: ms_number_tail ms_Plus_digit_fail)
next
  case False
  with assms(1) show ?thesis by (simp add: ms_number_tail ms_Plus_digit_fail)
qed

lemma ms_number_body_fail:
  assumes "takeWhile is_digit t = []" "fraction_at (dropWhile is_digit t) = []"
  shows "ms False number_body (t, cs) = []"
proof -
  from assms(1) have ns: "\<not> starts is_digit t" by (cases t) (auto split: if_splits)
  then have "dropWhile is_digit t = t" by (cases t) auto
  with assms(2) ns show ?thesis
    by (simp add: number_body_def ms_Seq digit_def ms_Star_Cls star_rests_none
          ms_number_tail_fail)
qed

lemma ms_number_body:
  assumes "takeWhile is_digit t \<noteq> [] \<or> fraction_at (dropWhile is_digit t) \<noteq> []"
  shows "\<exists>others. ms False number_body (t, cs)
           = (after_fraction (dropWhile is_digit t), cs) # others"
proof -
  let ?r = "dropWhile is_digit t"
  have all: "ms False number_body (t, cs)
               = concat (map (\<lambda>u. ms False number_tail (u, cs)) (star_rests is_digit t))"
    by (simp add: number_body_def ms_Seq digit_def ms_Star_Cls comp_def)
  show ?thesis
  proof (cases "fraction_at ?r = []")
    case False
    then obtain d r' where r: "?r = 46 # d # r'" and d: "is_digit d"
      by (cases ?r; cases "tl ?r") (auto split: if_splits)
    from ms_Plus_digit[of "d # r'" False cs] d obtain o1 where
      "ms False (Plus digit) (d # r', cs) = (dropWhile is_digit (d # r'), cs) # o1" by auto
    then have "ms False number_tail (?r, cs) = (after_fraction ?r, cs) # o1"
      using r d False by (simp add: ms_number_tail after_fraction_some)
    then show ?thesis
      unfolding all by (subst star_rests_split) simp
  next
    case True
    with assms have ip: "takeWhile is_digit t \<noteq> []" by simp
    from star_rests_second[OF ip] obtain more where
      sr: "star_rests is_digit t = ?r # (last (takeWhile is_digit t) # ?r) # more" by blast
    have ld: "is_digit (last (takeWhile is_digit t))"
      using ip by (metis last_in_set set_takeWhileD)
    have first: "ms False number_tail (?r, cs) = []"
      using True by (simp add: ms_number_tail_fail)
    have "last (takeWhile is_digit t) \<noteq> 46" using ld by auto
    moreover from ms_Plus_digit[of "last (takeWhile is_digit t) # ?r" False cs] ld
    obtain o2 where "ms False (Plus digit) (last (takeWhile is_digit t) # ?r, cs)
                       = (dropWhile is_digit ?r, cs) # o2" by auto
    ultimately have second:
      "ms False number_tail (last (takeWhile is_digit t) # ?r, cs) = (?r, cs) # o2"
      by (simp add: ms_number_tail)
    show ?thesis unfolding all sr using first second True by simp
  qed
qed

lemma ms_sign:
  "ms False (Opt (Cls [45, 43])) (s, cs)
     = (if starts is_sign s then [(tl s, cs), (s, cs)] else [(s, cs)])"
  by (cases s) (auto simp: ms_Opt ms_Cls is_sign_def)

lemma ms_number_re:
  "ms False number_re (s, cs)
     = ms False number_body (if starts is_sign s then tl s else s, cs)"
proof (cases "starts is_sign s")
  case True
  then obtain c t where s: "s = c # t" and c: "is_sign c" by (cases s) auto
  then have "takeWhile is_digit s = []" "dropWhile is_digit s = s" "fraction_at s = []"
    by (cases t; auto simp: is_sign_def)+
  then have "ms False number_body (s, cs) = []" by (simp add: ms_number_body_fail)
  with True show ?thesis by (simp add: number_re_unfold ms_Seq ms_sign)
next
  case False
  then show ?thesis by (simp add: number_re_unfold ms_Seq ms_sign)
qed

lemma digits_fraction_split:
  "t = (takeWhile is_digit t @ fraction_at (dropWhile is_digit t))
         @ after_fraction (dropWhile is_digit t)"
proof -
  have "dropWhile is_digit t
          = fraction_at (dropWhile is_digit t) @ after_fraction (dropWhile is_digit t)"
    unfolding after_fraction_def by (metis append_take_drop_id take_fraction)
  then have "takeWhile is_digit t @ dropWhile is_digit t
               = takeWhile is_digit t @ fraction_at (dropWhile is_digit t)
                   @ after_fraction (dropWhile is_digit t)"
    by simp
  then show ?thesis by simp
qed

lemma number_at_split:
  assumes "number_at s = Some x"
  shows "s = x @ after_fraction (dropWhile is_digit (if starts is_sign s then tl s else s))"
proof (cases "starts is_sign s")
  case True
  then obtain c t where s: "s = c # t" by (cases s) auto
  from assms True s
  have "x = c # takeWhile is_digit t @ fraction_at (dropWhile is_digit t)"
    by (auto simp: number_at_def Let_def split: if_splits)
  then show ?thesis using True s digits_fraction_split[of t] by simp
next
  case False
  with assms have "x = takeWhile is_digit s @ fraction_at (dropWhile is_digit s)"
    by (auto simp: number_at_def Let_def split: if_splits)
  then show ?thesis using False digits_fraction_split[of s] by simp
qed

lemma match_here_number_re:
  "match_here False number_re s
     = map_option (\<lambda>x. \<lparr> matched = x, groups = [] \<rparr>) (number_at s)"
proof (cases "number_at s")
  case None
  let ?t = "if starts is_sign s then tl s else s"
  have t: "drop (length (if starts is_sign s then take 1 s else [])) s = ?t" by (cases s) auto
  from None have "takeWhile is_digit ?t = []" "fraction_at (dropWhile is_digit ?t) = []"
    unfolding number_at_def Let_def t by (auto split: if_splits)
  then have "ms False number_body (?t, []) = []" by (rule ms_number_body_fail)
  with None show ?thesis by (simp add: match_here_def ms_number_re)
next
  case (Some x)
  let ?t = "if starts is_sign s then tl s else s"
  have t: "drop (length (if starts is_sign s then take 1 s else [])) s = ?t" by (cases s) auto
  from Some have "takeWhile is_digit ?t \<noteq> [] \<or> fraction_at (dropWhile is_digit ?t) \<noteq> []"
    unfolding number_at_def Let_def t by (auto split: if_splits)
  from ms_number_body[OF this, of "[]"] obtain others where
    "ms False number_body (?t, []) = (after_fraction (dropWhile is_digit ?t), []) # others"
    by blast
  moreover note split_facts[OF number_at_split[OF Some]]
  ultimately show ?thesis using Some by (simp add: match_here_def ms_number_re)
qed

lemma match_number_re:
  "match False number_re s
     = map_option (\<lambda>x. \<lparr> matched = x, groups = [] \<rparr>) (find_first number_at s)"
proof -
  have "match_here False number_re
          = (\<lambda>s. map_option (\<lambda>x. \<lparr> matched = x, groups = [] \<rparr>) (number_at s))"
    by (rule ext) (rule match_here_number_re)
  then show ?thesis
    unfolding match_find_first by (simp only: find_first_map_option)
qed

subsection \<open>\<open>Number\<close> never fails on what the patterns match\<close>

lemma fraction_at_shape:
  "fraction_at r = [] \<or> (\<exists>fp. fraction_at r = 46 # fp \<and> fp \<noteq> [] \<and> list_all is_digit fp)"
  by (cases r; cases "tl r") (auto simp: list_all_iff dest: set_takeWhileD)

lemma takeWhile_digits_append_fraction:
  "takeWhile is_digit (takeWhile is_digit t @ fraction_at r) = takeWhile is_digit t"
proof -
  have "takeWhile is_digit (fraction_at r) = []"
    using fraction_at_shape[of r] by auto
  then show ?thesis
    by (subst takeWhile_append2) (auto dest: set_takeWhileD)
qed

lemma dropWhile_digits_append_fraction:
  "dropWhile is_digit (takeWhile is_digit t @ fraction_at r) = fraction_at r"
proof -
  have "dropWhile is_digit (fraction_at r) = fraction_at r"
    using fraction_at_shape[of r] by auto
  then show ?thesis
    by (subst dropWhile_append2) (auto dest: set_takeWhileD)
qed

lemma Number_unsigned_text:
  assumes "takeWhile is_digit t \<noteq> [] \<or> fraction_at r \<noteq> []"
  shows "js_le (Fin 0) (Number_unsigned (takeWhile is_digit t @ fraction_at r))"
  using fraction_at_shape[of r] assms
  by (auto simp: Number_unsigned_def Let_def takeWhile_digits_append_fraction
        dropWhile_digits_append_fraction intro!: to_double_not_below_zero)

lemma Number_decimal_at:
  assumes "decimal_at s = Some a"
  shows "js_le (Fin 0) (Number_string a)"
proof -
  from assms obtain c t where s: "s = c # t" and c: "is_digit c"
    and a: "a = takeWhile is_digit s @ fraction_at (dropWhile is_digit s)"
    by (cases s) (auto simp: decimal_at_def split: if_splits)
  have ne: "takeWhile is_digit s \<noteq> []" using s c by simp
  have "a = c # (takeWhile is_digit t @ fraction_at (dropWhile is_digit s))"
    using a s c by simp
  then have "Number_string a = Number_unsigned a"
    using c by (auto simp: Number_string_def is_digit_def)
  with Number_unsigned_text[of s "dropWhile is_digit s"] ne a show ?thesis by simp
qed

lemma Number_number_at:
  assumes "number_at s = Some x"
  shows "\<not> isNaN (Number_string x)"
proof (cases "starts is_sign s")
  case True
  then obtain c t where s: "s = c # t" and c: "c = 45 \<or> c = 43"
    by (cases s) (auto simp: is_sign_def)
  from assms True s
  have x: "x = c # takeWhile is_digit t @ fraction_at (dropWhile is_digit t)"
    and ne: "takeWhile is_digit t \<noteq> [] \<or> fraction_at (dropWhile is_digit t) \<noteq> []"
    by (auto simp: number_at_def Let_def split: if_splits)
  from Number_unsigned_text[OF ne]
  have "\<not> isNaN (Number_unsigned (takeWhile is_digit t @ fraction_at (dropWhile is_digit t)))"
    by (rule js_le_not_NaN)
  with x c show ?thesis
    by (cases "Number_unsigned (takeWhile is_digit t @ fraction_at (dropWhile is_digit t))")
       (auto simp: Number_string_def)
next
  case False
  with assms have x: "x = takeWhile is_digit s @ fraction_at (dropWhile is_digit s)"
    and ne: "takeWhile is_digit s \<noteq> [] \<or> fraction_at (dropWhile is_digit s) \<noteq> []"
    by (auto simp: number_at_def Let_def split: if_splits)
  from Number_unsigned_text[OF ne] have v: "\<not> isNaN (Number_unsigned x)"
    unfolding x by (rule js_le_not_NaN)
  have "x \<noteq> []" using ne x by auto
  then obtain c x' where cx: "x = c # x'" by (cases x) auto
  have "c \<noteq> 43 \<and> c \<noteq> 45"
  proof (cases "takeWhile is_digit s = []")
    case True
    with ne x cx fraction_at_shape[of "dropWhile is_digit s"] show ?thesis by auto
  next
    case False
    then have "is_digit (hd (takeWhile is_digit s))"
      by (metis hd_in_set set_takeWhileD)
    moreover have "c = hd (takeWhile is_digit s)" using False x cx by (cases "takeWhile is_digit s") auto
    ultimately show ?thesis by (auto simp: is_digit_def)
  qed
  with cx v show ?thesis by (auto simp: Number_string_def)
qed

subsection \<open>Trimming does not change what is found\<close>

lemma wsp_simps [simp]: "wsp []" "wsp (c # w) = (is_space c \<and> wsp w)"
  by (auto simp: wsp_def)

lemma not_digit_space: "is_space c \<Longrightarrow> \<not> is_digit c"
  using not_space_digit by blast

lemma space_not_punct: "is_space c \<Longrightarrow> c \<noteq> 46 \<and> c \<noteq> 45 \<and> c \<noteq> 43 \<and> c \<noteq> 111 \<and> c \<noteq> 79"
  by (auto simp: is_space_def white_space_def)

lemma takeWhile_digit_wsp: "wsp w \<Longrightarrow> takeWhile is_digit w = []"
  by (cases w) (auto simp: not_digit_space)

lemma takeWhile_digit_append_wsp:
  "wsp w \<Longrightarrow> takeWhile is_digit (u @ w) = takeWhile is_digit u"
  by (induction u) (auto simp: takeWhile_digit_wsp)

lemma dropWhile_digit_append_wsp:
  "wsp w \<Longrightarrow> dropWhile is_digit (u @ w) = dropWhile is_digit u @ w"
  by (induction u) (auto simp: takeWhile_digit_wsp dropWhile_eq_self_iff hd_conv_nth
        not_digit_space split: list.splits, (cases w; auto simp: not_digit_space)+)

lemma fraction_at_wsp: "wsp w \<Longrightarrow> fraction_at w = []"
  by (cases w; cases "tl w") (auto simp: space_not_punct)

lemma fraction_at_append_wsp: "wsp w \<Longrightarrow> fraction_at (r @ w) = fraction_at r"
proof (cases r)
  case Nil
  assume "wsp w" with Nil show ?thesis by (simp add: fraction_at_wsp)
next
  case (Cons c t)
  assume w: "wsp w"
  show ?thesis
  proof (cases t)
    case Nil
    with Cons w show ?thesis by (cases w) (auto simp: not_digit_space)
  next
    case (Cons d t')
    with \<open>r = c # t\<close> w show ?thesis by (simp add: takeWhile_digit_append_wsp)
  qed
qed

lemma starts_digit_append_wsp: "wsp w \<Longrightarrow> starts is_digit (u @ w) = starts is_digit u"
  by (cases u; cases w) (auto simp: not_digit_space)

lemma decimal_at_append_wsp: "wsp w \<Longrightarrow> decimal_at (u @ w) = decimal_at u"
  by (simp add: decimal_at_def starts_digit_append_wsp takeWhile_digit_append_wsp
        dropWhile_digit_append_wsp fraction_at_append_wsp)

lemma decimal_at_wsp: "wsp w \<Longrightarrow> decimal_at w = None"
  using decimal_at_append_wsp[of w "[]"] by (simp add: decimal_at_def)

lemma separator_at_Nil [simp]: "separator_at [] = None"
  by (simp add: separator_at_def)

lemma separator_at_wsp: "wsp w \<Longrightarrow> separator_at w = None"
  by (cases w) (auto simp: separator_at_space)

lemma separator_at_append_wsp: "wsp w \<Longrightarrow> separator_at (r @ w) = separator_at r"
proof (cases r)
  case Nil
  assume "wsp w" with Nil show ?thesis by (simp add: separator_at_wsp)
next
  case (Cons c t)
  assume w: "wsp w"
  show ?thesis
  proof (cases t)
    case Nil
    with Cons w show ?thesis
      by (cases w) (auto simp: separator_at_def space_not_punct)
  next
    case (Cons d t')
    with \<open>r = c # t\<close> show ?thesis by (simp add: separator_at_def)
  qed
qed

lemma dropWhile_space_append_wsp:
  "wsp w \<Longrightarrow> dropWhile is_space (r @ w) = (if wsp r then [] else dropWhile is_space r @ w)"
  by (induction r) (auto simp: wsp_def)

lemma dropWhile_space_wsp: "wsp r \<Longrightarrow> dropWhile is_space r = []"
  by (induction r) auto

lemma decimal_at_length: "decimal_at s = Some a \<Longrightarrow> length a \<le> length s"
  using decimal_at_split[of s a] by (metis length_append le_add1)

lemma separator_at_length: "separator_at s = Some t \<Longrightarrow> length t \<le> length s"
  by (cases s; cases "tl s") (auto simp: separator_at_def split: if_splits)

lemma second_decimal_append_wsp:
  assumes w: "wsp w"
  shows "(case after_separator (r @ w) of None \<Rightarrow> None | Some v \<Rightarrow> decimal_at v)
           = (case after_separator r of None \<Rightarrow> None | Some v \<Rightarrow> decimal_at v)"
proof (cases "wsp r")
  case True
  then have e: "dropWhile is_space (r @ w) = []" "dropWhile is_space r = []"
    by (simp_all add: dropWhile_space_append_wsp[OF w] dropWhile_space_wsp)
  show ?thesis unfolding after_separator_def Let_def e by simp
next
  case False
  let ?ra = "dropWhile is_space r"
  from False have ra: "dropWhile is_space (r @ w) = ?ra @ w"
    by (simp add: dropWhile_space_append_wsp[OF w])
  show ?thesis
  proof (cases "separator_at ?ra")
    case None
    then show ?thesis
      unfolding after_separator_def Let_def ra separator_at_append_wsp[OF w] by simp
  next
    case (Some sep)
    let ?rc = "drop (length sep) ?ra"
    have d: "drop (length sep) (?ra @ w) = ?rc @ w"
      using separator_at_length[OF Some] by simp
    have "decimal_at (dropWhile is_space (?rc @ w)) = decimal_at (dropWhile is_space ?rc)"
      by (cases "wsp ?rc")
         (simp_all add: dropWhile_space_append_wsp[OF w] dropWhile_space_wsp
            decimal_at_append_wsp[OF w])
    then show ?thesis
      using Some unfolding after_separator_def Let_def ra separator_at_append_wsp[OF w]
      by (simp only: option.case d)
  qed
qed

lemma range_at_append_wsp:
  assumes w: "wsp w"
  shows "range_at (u @ w) = range_at u"
proof (cases "decimal_at u")
  case None
  then show ?thesis by (simp add: range_at_def decimal_at_append_wsp[OF w])
next
  case (Some a)
  have d: "length a - length u = 0"
    using decimal_at_length[OF Some] by simp
  have "range_at (u @ w)
          = (case (case after_separator (drop (length a) u @ w) of
                     None \<Rightarrow> None | Some v \<Rightarrow> decimal_at v) of
               None \<Rightarrow> None | Some b \<Rightarrow> Some (a, b))"
    using Some by (simp add: range_at_def decimal_at_append_wsp[OF w] d split: option.splits)
  also have "\<dots> = (case (case after_separator (drop (length a) u) of
                     None \<Rightarrow> None | Some v \<Rightarrow> decimal_at v) of
               None \<Rightarrow> None | Some b \<Rightarrow> Some (a, b))"
    by (simp only: second_decimal_append_wsp[OF w])
  also have "\<dots> = range_at u"
    using Some by (simp add: range_at_def split: option.splits)
  finally show ?thesis .
qed

lemma starts_sign_append_wsp: "wsp w \<Longrightarrow> starts is_sign (u @ w) = starts is_sign u"
  by (cases u; cases w) (auto simp: is_sign_def space_not_punct)

lemma number_at_append_wsp:
  assumes w: "wsp w"
  shows "number_at (u @ w) = number_at u"
proof (cases "starts is_sign u")
  case True
  then obtain c t where "u = c # t" by (cases u) auto
  with True show ?thesis
    by (simp add: number_at_def Let_def takeWhile_digit_append_wsp[OF w]
        dropWhile_digit_append_wsp[OF w] fraction_at_append_wsp[OF w])
next
  case False
  then have "\<not> starts is_sign (u @ w)" by (simp add: starts_sign_append_wsp[OF w])
  with False show ?thesis
    by (simp add: number_at_def Let_def takeWhile_digit_append_wsp[OF w]
        dropWhile_digit_append_wsp[OF w] fraction_at_append_wsp[OF w])
qed

lemma range_at_space: "is_space c \<Longrightarrow> range_at (c # u) = None"
  by (simp add: range_at_def decimal_at_def not_digit_space)

lemma number_at_space: "is_space c \<Longrightarrow> number_at (c # u) = None"
  by (cases u) (auto simp: number_at_def Let_def is_sign_def space_not_punct not_digit_space)

lemma range_at_Nil [simp]: "range_at [] = None"
  by (simp add: range_at_def decimal_at_def)

lemma number_at_Nil [simp]: "number_at [] = None"
  by (simp add: number_at_def)

lemma find_first_dropWhile:
  assumes "\<And>c u. is_space c \<Longrightarrow> f (c # u) = None"
  shows "find_first f (dropWhile is_space s) = find_first f s"
  by (induction s) (simp_all add: assms)

lemma find_first_wsp:
  assumes "\<And>c u. is_space c \<Longrightarrow> f (c # u) = None" and "f [] = None"
  shows "wsp w \<Longrightarrow> find_first f w = None"
  by (induction w) (simp_all add: assms)

lemma find_first_append:
  assumes "\<And>u. f (u @ w) = f u" and "find_first f w = f []"
  shows "find_first f (s @ w) = find_first f s"
proof (induction s)
  case Nil
  show ?case using assms(2) by simp
next
  case (Cons c t)
  have "f (c # t @ w) = f (c # t)" using assms(1)[of "c # t"] by simp
  with Cons show ?case by (simp split: option.splits)
qed

lemma trim_decomposition:
  "\<exists>w. wsp w \<and> dropWhile is_space s = trim s @ w"
proof -
  let ?u = "dropWhile is_space s"
  have "rev ?u = takeWhile is_space (rev ?u) @ dropWhile is_space (rev ?u)" by simp
  then have "?u = rev (dropWhile is_space (rev ?u)) @ rev (takeWhile is_space (rev ?u))"
    by (metis rev_append rev_rev_ident)
  moreover have "wsp (rev (takeWhile is_space (rev ?u)))"
    by (auto simp: wsp_def dest: set_takeWhileD)
  ultimately show ?thesis unfolding trim_def by blast
qed

lemma find_first_trim:
  assumes "\<And>c u. is_space c \<Longrightarrow> f (c # u) = None" and "f [] = None"
    and "\<And>u w. wsp w \<Longrightarrow> f (u @ w) = f u"
  shows "find_first f (trim s) = find_first f s"
proof -
  from trim_decomposition[of s] obtain w where w: "wsp w"
    and d: "dropWhile is_space s = trim s @ w" by blast
  have "find_first f (trim s @ w) = find_first f (trim s)"
    by (rule find_first_append) (simp_all add: assms(3)[OF w] find_first_wsp[OF assms(1,2) w] assms(2))
  then show ?thesis
    using find_first_dropWhile[of f s, OF assms(1)] d by simp
qed

lemma find_range_trim: "find_first range_at (trim s) = find_first range_at s"
  by (rule find_first_trim) (simp_all add: range_at_space range_at_append_wsp)

lemma find_number_trim: "find_first number_at (trim s) = find_first number_at s"
  by (rule find_first_trim) (simp_all add: number_at_space number_at_append_wsp)

subsection \<open>The source computes the algorithm of the specification\<close>

lemma find_first_Some: "find_first f s = Some x \<Longrightarrow> \<exists>u. f u = Some x"
  by (induction s) (auto split: option.splits)

lemma first_number_spec:
  "first_number s
     = (case find_first number_at s of
          Some x \<Rightarrow> Math_max (Fin 0) (Math_round (Number_string x))
        | None \<Rightarrow> Fin 0)"
  by (simp add: first_number_def match_number_re split: option.splits)

lemma range_at_numbers:
  assumes "range_at u = Some (a, b)"
  shows "js_le (Fin 0) (Number_string a) \<and> js_le (Fin 0) (Number_string b)"
proof -
  from assms have "decimal_at u = Some a"
    by (auto simp: range_at_def split: option.splits)
  moreover from assms obtain r where "decimal_at r = Some b"
    by (auto simp: range_at_def split: option.splits)
  ultimately show ?thesis using Number_decimal_at by blast
qed

lemma range_match_groups:
  assumes "find_first range_at s = Some (a, b)"
  shows "\<exists>m. match True range_re s = Some m \<and> group m 1 = Some a \<and> group m 2 = Some b"
proof -
  from match_range_re[of s] assms
  obtain m where "match True range_re s = Some m" "groups m = [(2, b), (1, a)]"
    by (cases "match True range_re s") auto
  then show ?thesis by (simp add: group_def)
qed

lemma range_match_None:
  assumes "find_first range_at s = None"
  shows "match True range_re s = None"
  using match_range_re[of s] assms by simp

lemma parse_string_trimmed:
  "parseNutritionNumber (Str text)
     = (let s = trim (replace_commas text) in
        case find_first range_at s of
          Some (a, b) \<Rightarrow> midpoint a b
        | None \<Rightarrow> first_number s)"
proof (cases "find_first range_at (trim (replace_commas text))")
  case None
  then show ?thesis
    by (simp add: parseNutritionNumber_def Let_def range_match_None)
next
  case (Some ab)
  obtain a b where ab: "ab = (a, b)" by (cases ab)
  from range_match_groups[OF Some[unfolded ab]] obtain m where
    m: "match True range_re (trim (replace_commas text)) = Some m"
       "group m 1 = Some a" "group m 2 = Some b" by blast
  from find_first_Some[OF Some[unfolded ab]] range_at_numbers
  have "js_le (Fin 0) (Number_string a) \<and> js_le (Fin 0) (Number_string b)" by blast
  then have "\<not> isNaN (Number_string a)" "\<not> isNaN (Number_string b)"
    by (blast dest: js_le_not_NaN)+
  with m Some ab show ?thesis
    by (simp add: parseNutritionNumber_def Let_def Number_of_def midpoint_def)
qed

lemma parse_string_spec: "parseNutritionNumber (Str text) = spec_parse_string text"
  by (simp add: parse_string_trimmed spec_parse_string_def Let_def find_range_trim
        first_number_spec find_number_trim split: option.splits)

subsection \<open>Claim C2: the result is a non-negative integer or \<open>Infinity\<close>\<close>

lemma clamp_round_count: "\<exists>n::nat. Math_max (Fin 0) (Math_round (Fin x)) = Fin (real n)"
proof -
  have "max 0 (real_of_int \<lfloor>x + 1 / 2\<rfloor>) = real (nat \<lfloor>x + 1 / 2\<rfloor>)"
    by (simp add: max_def)
  then show ?thesis by auto
qed

lemma clamp_round_count_or_infinity:
  assumes "\<not> isNaN v"
  shows "(\<exists>n::nat. Math_max (Fin 0) (Math_round v) = Fin (real n))
         \<or> Math_max (Fin 0) (Math_round v) = PosInf"
proof (cases v)
  case (Fin x)
  then show ?thesis using clamp_round_count[of x] by simp
next
  case NegInf
  have "Fin 0 = Fin (real 0)" by simp
  with NegInf show ?thesis by (simp del: of_nat_0)
qed (use assms in simp_all)

lemma midpoint_count:
  assumes "js_le (Fin 0) (Number_string a)" "js_le (Fin 0) (Number_string b)"
  shows "(\<exists>n::nat. midpoint a b = Fin (real n)) \<or> midpoint a b = PosInf"
  unfolding midpoint_def
  by (intro clamp_round_count_or_infinity js_le_not_NaN[of "Fin 0"]
        js_div_by_not_below_zero js_add_not_below_zero assms) simp

lemma spec_parse_string_count:
  "(\<exists>n::nat. spec_parse_string text = Fin (real n)) \<or> spec_parse_string text = PosInf"
proof (cases "find_first range_at (replace_commas text)")
  case None
  show ?thesis
  proof (cases "find_first number_at (replace_commas text)")
    case None
    have "Fin 0 = Fin (real 0)" by simp
    with None \<open>find_first range_at (replace_commas text) = None\<close> show ?thesis
      by (simp add: spec_parse_string_def del: of_nat_0)
  next
    case (Some x)
    from find_first_Some[OF Some] Number_number_at have "\<not> isNaN (Number_string x)" by blast
    from clamp_round_count_or_infinity[OF this] Some
      \<open>find_first range_at (replace_commas text) = None\<close>
    show ?thesis by (simp add: spec_parse_string_def)
  qed
next
  case (Some ab)
  obtain a b where ab: "ab = (a, b)" by (cases ab)
  from find_first_Some[OF Some[unfolded ab]] range_at_numbers
  have "js_le (Fin 0) (Number_string a) \<and> js_le (Fin 0) (Number_string b)" by blast
  then have "js_le (Fin 0) (Number_string a)" "js_le (Fin 0) (Number_string b)" by simp_all
  from midpoint_count[OF this] Some ab show ?thesis by (simp add: spec_parse_string_def)
qed

lemma parse_count:
  "(\<exists>n::nat. parseNutritionNumber v = Fin (real n)) \<or> parseNutritionNumber v = PosInf"
proof -
  have z: "\<exists>n::nat. Fin 0 = Fin (real n)" by simp
  show ?thesis
  proof (cases v)
    case (Num n)
    then show ?thesis
      using clamp_round_count z by (cases n) (auto simp: parseNutritionNumber_def)
  next
    case (Str str)
    then show ?thesis using spec_parse_string_count by (simp add: parse_string_spec)
  qed (use z in \<open>auto simp: parseNutritionNumber_def\<close>)
qed

lemma no_digit_scans:
  assumes "\<forall>c \<in> set s. \<not> is_digit c"
  shows "find_first range_at s = None" and "find_first number_at s = None"
proof -
  have r: "\<And>u. \<forall>c \<in> set u. \<not> is_digit c \<Longrightarrow> range_at u = None"
    by (simp add: range_at_def decimal_at_def starts_def split: list.splits)
  have n: "\<And>u. \<forall>c \<in> set u. \<not> is_digit c \<Longrightarrow> number_at u = None"
  proof -
    fix u :: ustring assume u: "\<forall>c \<in> set u. \<not> is_digit c"
    let ?t = "drop (length (if starts is_sign u then take 1 u else [])) u"
    have t: "\<forall>c \<in> set ?t. \<not> is_digit c" using u by (auto dest: in_set_dropD)
    then have "takeWhile is_digit ?t = []" by (cases ?t) auto
    moreover from t have "dropWhile is_digit ?t = ?t" by (cases ?t) auto
    moreover from t have "fraction_at ?t = []" by (cases ?t; cases "tl ?t") auto
    ultimately show "number_at u = None" by (simp add: number_at_def Let_def)
  qed
  from assms show "find_first range_at s = None" by (induction s) (simp_all add: r)
  from assms show "find_first number_at s = None" by (induction s) (simp_all add: n)
qed

lemma parse_no_digit:
  assumes "\<forall>c \<in> set text. \<not> is_digit c"
  shows "parseNutritionNumber (Str text) = Fin 0"
proof -
  have "\<forall>c \<in> set (replace_commas text). \<not> is_digit c"
    using assms by (auto simp: replace_commas_def is_digit_def)
  from no_digit_scans[OF this] show ?thesis
    by (simp add: parse_string_spec spec_parse_string_def)
qed

lemma parse_nonpositive_number: "x \<le> 0 \<Longrightarrow> parseNutritionNumber (Num (Fin x)) = Fin 0"
proof -
  assume "x \<le> 0"
  then have "x + 1 / 2 < 1" by simp
  then have "\<lfloor>x + 1 / 2\<rfloor> < 1" by (simp only: floor_less_iff of_int_1)
  then have "real_of_int \<lfloor>x + 1 / 2\<rfloor> \<le> 0" by simp
  then have "max 0 (real_of_int \<lfloor>x + 1 / 2\<rfloor>) = 0" by (simp only: max_absorb1)
  then show ?thesis by (simp add: parseNutritionNumber_def)
qed

lemma clamp_round_nonpositive:
  assumes "js_le v (Fin 0)"
  shows "Math_max (Fin 0) (Math_round v) = Fin 0"
proof (cases v)
  case (Fin x)
  with assms parse_nonpositive_number[of x] show ?thesis by (simp add: parseNutritionNumber_def)
qed (use assms in simp_all)

lemma all_digit_scans:
  assumes "\<forall>c \<in> set ds. is_digit c"
  shows "find_first range_at ds = None"
proof -
  have r: "\<And>u. \<forall>c \<in> set u. is_digit c \<Longrightarrow> range_at u = None"
  proof -
    fix u :: ustring assume u: "\<forall>c \<in> set u. is_digit c"
    then have td: "takeWhile is_digit u = u" "dropWhile is_digit u = []" by simp_all
    have "decimal_at u = (if starts is_digit u then Some u else None)"
      by (simp add: decimal_at_def td)
    then show "range_at u = None"
      by (simp add: range_at_def after_separator_def)
  qed
  from assms show ?thesis by (induction ds) (simp_all add: r)
qed

lemma parse_negative_integer_string:
  assumes "ds \<noteq> []" "\<forall>c \<in> set ds. is_digit c"
  shows "parseNutritionNumber (Str (45 # ds)) = Fin 0"
proof -
  have "map (\<lambda>c. if c = 44 then 46 else c) ds = ds"
    by (rule map_idI) (use assms(2) in \<open>auto simp: is_digit_def\<close>)
  then have rc: "replace_commas (45 # ds) = 45 # ds"
    by (simp add: replace_commas_def)
  have td: "takeWhile is_digit ds = ds" "dropWhile is_digit ds = []" using assms(2) by simp_all
  have "range_at (45 # ds) = None" by (simp add: range_at_def decimal_at_def)
  then have r: "find_first range_at (45 # ds) = None"
    using all_digit_scans[OF assms(2)] by simp
  have n: "find_first number_at (45 # ds) = Some (45 # ds)"
    using assms(1) by (simp add: number_at_def Let_def is_sign_def td)
  have "Number_unsigned ds = to_double (real (digits_value ds))"
    using assms(1) by (simp add: Number_unsigned_def td)
  moreover have "js_le (Fin 0) (to_double (real (digits_value ds)))"
    by (rule to_double_not_below_zero) simp
  ultimately have "js_le (Number_string (45 # ds)) (Fin 0)"
    by (cases "to_double (real (digits_value ds))") (simp_all add: Number_string_def)
  then show ?thesis
    using r n clamp_round_nonpositive by (simp add: parse_string_spec spec_parse_string_def rc)
qed

text \<open>Evaluating the source's patterns on a concrete string.\<close>

lemmas parse_eval = parseNutritionNumber_def first_number_def match_here_def range_re_def number_re_def
  decimal_def separator_def digit_def space_def white_space_def Plus_def canon_def ascii_def
  trim_def replace_commas_def is_space_def group_def Number_of_def Number_string_def
  Number_unsigned_def is_digit_def digits_value_def Let_def ms.simps

lemma digits_value_append_zeros:
  "foldl (\<lambda>acc d. acc * 10 + (d - 48)) (acc :: nat) (replicate n 48) = acc * 10 ^ n"
  by (induction n arbitrary: acc) simp_all

lemma digits_value_one_zeros: "digits_value (49 # replicate n 48) = 10 ^ n"
  by (simp add: digits_value_def digits_value_append_zeros)

lemma replace_commas_digits:
  assumes "\<forall>c \<in> set ds. is_digit c"
  shows "replace_commas ds = ds"
  unfolding replace_commas_def
  by (rule map_idI) (use assms in \<open>auto simp: is_digit_def\<close>)

lemma parse_digit_string:
  assumes "ds \<noteq> []" "\<forall>c \<in> set ds. is_digit c"
  shows "parseNutritionNumber (Str ds)
           = Math_max (Fin 0) (Math_round (to_double (real (digits_value ds))))"
proof -
  have td: "takeWhile is_digit ds = ds" "dropWhile is_digit ds = []" using assms(2) by simp_all
  obtain c t where ds: "ds = c # t" using assms(1) by (cases ds) auto
  then have c: "is_digit c" using assms(2) by simp
  then have ns: "\<not> is_sign c" by (auto simp: is_digit_def is_sign_def)
  have "starts is_sign ds = False" using ns by (simp add: starts_def ds)
  then have "number_at ds = Some ds"
    using assms(1) by (simp add: number_at_def Let_def td)
  then have n: "find_first number_at ds = Some ds" by (simp add: ds)
  have "Number_string ds = Number_unsigned ds"
    using c by (auto simp: Number_string_def ds is_digit_def)
  also have "\<dots> = to_double (real (digits_value ds))"
    using assms(1) by (simp add: Number_unsigned_def td)
  finally show ?thesis
    using n all_digit_scans[OF assms(2)]
    by (simp add: parse_string_spec spec_parse_string_def replace_commas_digits[OF assms(2)])
qed

lemma parse_example_overflow: "parseNutritionNumber (Str (49 # replicate 309 48)) = PosInf"
proof -
  have "to_double (real (digits_value (49 # replicate 309 48))) = PosInf"
    unfolding digits_value_one_zeros using limit_10_309 by (intro to_double_overflow) simp
  moreover have "\<forall>c \<in> set (49 # replicate 309 48). is_digit c" by (simp add: is_digit_def)
  ultimately show ?thesis using parse_digit_string[of "49 # replicate 309 48"] by simp
qed

lemma parse_example_invalid: "parseNutritionNumber (Str (ascii ''invalid'')) = Fin 0"
  by (simp add: parse_eval)

lemma parse_example_minus_50: "parseNutritionNumber (Str (ascii ''-50'')) = Fin 0"
  by (simp add: parse_eval)

text \<open>
  Claim C2 says that \<open>parseNutritionNumber\<close> returns a non-negative integer for
  every input. The source does so for numbers, where it tests \<open>isFinite\<close> first and
  returns 0 for \<open>Infinity\<close>, but not for strings: \<open>Number\<close> of a decimal beyond
  the double range is \<open>Infinity\<close>, which the string branch rounds, clamps and returns.
  On the digit 1 followed by 309 zeros the result is \<open>Infinity\<close>. Apart from that the
  claim holds: there is no failing path, the result is never \<open>NaN\<close> and never
  negative, and it is a natural number whenever it is finite; \<open>null\<close>,
  \<open>undefined\<close>, \<open>NaN\<close> and every string without a digit, such as \<open>invalid\<close>,
  give 0; every number that is not positive, such as -10, and every digit string behind a
  minus sign, such as \<open>-50\<close>, give 0.
\<close>

theorem parseNutritionNumber_infinite_on_overflow:
  "parseNutritionNumber (Str (49 # replicate 309 48)) = PosInf
   \<and> parseNutritionNumber (Num PosInf) = Fin 0
   \<and> (\<forall>v. (\<exists>n::nat. parseNutritionNumber v = Fin (real n)) \<or> parseNutritionNumber v = PosInf)
   \<and> parseNutritionNumber Null = Fin 0 \<and> parseNutritionNumber Undefined = Fin 0
   \<and> parseNutritionNumber (Num NaN) = Fin 0
   \<and> parseNutritionNumber (Str (ascii ''invalid'')) = Fin 0
   \<and> (\<forall>str. (\<forall>c \<in> set str. \<not> is_digit c) \<longrightarrow> parseNutritionNumber (Str str) = Fin 0)
   \<and> (\<forall>x. x \<le> 0 \<longrightarrow> parseNutritionNumber (Num (Fin x)) = Fin 0)
   \<and> parseNutritionNumber (Num (Fin (- 10))) = Fin 0
   \<and> (\<forall>ds. ds \<noteq> [] \<and> (\<forall>c \<in> set ds. is_digit c) \<longrightarrow>
          parseNutritionNumber (Str (45 # ds)) = Fin 0)
   \<and> parseNutritionNumber (Str (ascii ''-50'')) = Fin 0"
proof (intro conjI allI impI)
  show "parseNutritionNumber (Str (49 # replicate 309 48)) = PosInf"
    by (rule parse_example_overflow)
next
  show "parseNutritionNumber (Num PosInf) = Fin 0" by (simp add: parseNutritionNumber_def)
next
  fix v
  show "(\<exists>n::nat. parseNutritionNumber v = Fin (real n)) \<or> parseNutritionNumber v = PosInf"
    by (rule parse_count)
next
  show "parseNutritionNumber (Num NaN) = Fin 0" by (simp add: parseNutritionNumber_def)
next
  show "parseNutritionNumber (Str (ascii ''invalid'')) = Fin 0" by (rule parse_example_invalid)
next
  fix str :: ustring assume "\<forall>c \<in> set str. \<not> is_digit c"
  then show "parseNutritionNumber (Str str) = Fin 0" by (rule parse_no_digit)
next
  fix x :: real assume "x \<le> 0"
  then show "parseNutritionNumber (Num (Fin x)) = Fin 0" by (rule parse_nonpositive_number)
next
  show "parseNutritionNumber (Num (Fin (- 10))) = Fin 0"
    by (rule parse_nonpositive_number) simp
next
  fix ds :: ustring assume "ds \<noteq> [] \<and> (\<forall>c \<in> set ds. is_digit c)"
  then show "parseNutritionNumber (Str (45 # ds)) = Fin 0"
    using parse_negative_integer_string by blast
next
  show "parseNutritionNumber (Str (ascii ''-50'')) = Fin 0" by (rule parse_example_minus_50)
qed (simp_all add: parseNutritionNumber_def)

theorem parseNutritionNumber_infinite_on_overflow_witness:
  "list_all (\<lambda>c. \<not> is_digit c) (ascii ''kcal'')
   \<and> parseNutritionNumber (Str (ascii ''kcal'')) = Fin 0
   \<and> (- 3 :: real) \<le> 0 \<and> parseNutritionNumber (Num (Fin (- 3))) = Fin 0
   \<and> ascii ''75'' \<noteq> [] \<and> list_all is_digit (ascii ''75'')
   \<and> parseNutritionNumber (Str (45 # ascii ''75'')) = Fin 0
   \<and> ((\<exists>n::nat. parseNutritionNumber (Str (ascii ''12 g'')) = Fin (real n))
        \<or> parseNutritionNumber (Str (ascii ''12 g'')) = PosInf)
   \<and> parseNutritionNumber (Str (49 # replicate 309 48)) = PosInf"
proof -
  note claim = parseNutritionNumber_infinite_on_overflow
  have a: "\<forall>c \<in> set (ascii ''kcal''). \<not> is_digit c" by (simp add: ascii_def is_digit_def)
  have b: "ascii ''75'' \<noteq> [] \<and> (\<forall>c \<in> set (ascii ''75''). is_digit c)"
    by (simp add: ascii_def is_digit_def)
  have c: "(- 3 :: real) \<le> 0" by simp
  note c0 = claim[THEN conjunct1]
  note c1 = claim[THEN conjunct2, THEN conjunct2, THEN conjunct1, rule_format,
      of "Str (ascii ''12 g'')"]
  note c6 = claim[THEN conjunct2, THEN conjunct2, THEN conjunct2, THEN conjunct2,
      THEN conjunct2, THEN conjunct2, THEN conjunct2, THEN conjunct1, THEN spec, THEN mp, OF a]
  note c7 = claim[THEN conjunct2, THEN conjunct2, THEN conjunct2, THEN conjunct2,
      THEN conjunct2, THEN conjunct2, THEN conjunct2, THEN conjunct2, THEN conjunct1,
      THEN spec, THEN mp, OF c]
  note c9 = claim[THEN conjunct2, THEN conjunct2, THEN conjunct2, THEN conjunct2,
      THEN conjunct2, THEN conjunct2, THEN conjunct2, THEN conjunct2, THEN conjunct2,
      THEN conjunct2, THEN conjunct1, THEN spec, THEN mp, OF b]
  from a b c c0 c1 c6 c7 c9 show ?thesis by (simp only: list_all_iff) blast
qed

subsection \<open>Claim C3: the parsing algorithm\<close>

lemma to_double_half_201: "to_double (201 / 2) = Fin (201 / 2)"
  using is_double_dyadic[of 201 1] by (simp add: is_double_def)

lemma to_double_half_25: "to_double (25 / 2) = Fin (25 / 2)"
  using is_double_dyadic[of 25 1] by (simp add: is_double_def)

lemma round_123_45: "Math_round (to_double (2469 / 20)) = Fin 123"
  using Math_round_to_double_between[of 123 "3951 / 32" "2469 / 20" 123]
    is_double_dyadic[of 123 0] is_double_dyadic[of 3951 5]
  by simp


lemma parse_example_comma_half: "parseNutritionNumber (Str (ascii ''100,5'')) = Fin 101"
  by (simp add: parse_eval to_double_half_201)

lemma parse_example_comma_decimal: "parseNutritionNumber (Str (ascii ''123,45'')) = Fin 123"
  by (simp add: parse_eval round_123_45)

lemma nearest_2_49: "nearest (24999999999999999999 / 10000000000000000000) = 5 / 2"
  using nearest_in_binade[of 1 "24999999999999999999 / 10000000000000000000"]
  by (simp add: rhe_frac)

lemma to_double_2_49: "to_double (24999999999999999999 / 10000000000000000000) = Fin (5 / 2)"
  by (rule Fin_nearest[OF nearest_2_49]) simp

lemma parse_example_rounds_up:
  "parseNutritionNumber (Str (ascii ''2.4999999999999999999'')) = Fin 3"
  by (simp add: parse_eval to_double_2_49)

lemma parse_example_range_hyphen: "parseNutritionNumber (Str (ascii ''200-300'')) = Fin 250"
  by (simp add: parse_eval)

lemma parse_example_range_to: "parseNutritionNumber (Str (ascii ''50 to 100'')) = Fin 75"
  by (simp add: parse_eval)

lemma parse_example_range_en_dash:
  "parseNutritionNumber (Str (ascii ''100 '' @ [8211] @ ascii '' 200'')) = Fin 150"
  by (simp add: parse_eval)

lemma parse_example_unit: "parseNutritionNumber (Str (ascii ''100 kcal'')) = Fin 100"
  by (simp add: parse_eval)

lemma parse_example_tilde: "parseNutritionNumber (Str (ascii ''~50g'')) = Fin 50"
  by (simp add: parse_eval)

lemma digits_value_snoc: "digits_value (ds @ [d]) = digits_value ds * 10 + (d - 48)"
  by (simp add: digits_value_def)

lemma digits_value_bound:
  assumes "\<forall>c \<in> set ds. is_digit c"
  shows "digits_value ds < 10 ^ length ds"
  using assms
proof (induction ds rule: rev_induct)
  case Nil
  show ?case by (simp add: digits_value_def)
next
  case (snoc d ds)
  then have "digits_value ds < 10 ^ length ds" and "d - 48 \<le> 9"
    by (auto simp: is_digit_def)
  then have "digits_value ds * 10 + (d - 48) < 10 ^ length ds * 10" by linarith
  then show ?case by (simp add: digits_value_snoc)
qed

lemma Number_digit_string:
  assumes "ds \<noteq> []" "\<forall>c \<in> set ds. is_digit c"
  shows "Number_string ds = to_double (real (digits_value ds))"
proof -
  have td: "takeWhile is_digit ds = ds" "dropWhile is_digit ds = []" using assms(2) by simp_all
  obtain c t where ds: "ds = c # t" using assms(1) by (cases ds) auto
  then have "is_digit c" using assms(2) by simp
  then have "Number_string ds = Number_unsigned ds"
    by (auto simp: Number_string_def ds is_digit_def)
  also have "\<dots> = to_double (real (digits_value ds))"
    using assms(1) by (simp add: Number_unsigned_def td)
  finally show ?thesis .
qed

lemma Number_short_digit_string:
  assumes "ds \<noteq> []" "\<forall>c \<in> set ds. is_digit c" "length ds \<le> 15"
  shows "Number_string ds = Fin (real (digits_value ds))"
proof -
  have "(10::nat) ^ length ds \<le> 10 ^ 15" using assms(3) by (intro power_increasing) simp_all
  with digits_value_bound[OF assms(2)] have "digits_value ds \<le> 2 ^ 53" by simp
  then have "is_double (real (digits_value ds))" by (rule is_double_nat)
  then show ?thesis by (simp add: Number_digit_string[OF assms(1,2)] is_double_def)
qed

lemma midpoint_exact:
  assumes "Number_string a = Fin x" "Number_string b = Fin y"
    and "is_double (x + y)" "is_double ((x + y) / 2)"
  shows "midpoint a b = Fin (max 0 (real_of_int \<lfloor>(x + y) / 2 + 1 / 2\<rfloor>))"
  using assms by (simp add: midpoint_def is_double_def)

lemma midpoint_short_digit_strings:
  assumes "a \<noteq> []" "\<forall>c \<in> set a. is_digit c" "length a \<le> 15"
    and "b \<noteq> []" "\<forall>c \<in> set b. is_digit c" "length b \<le> 15"
  shows "midpoint a b
           = Fin (max 0 (real_of_int \<lfloor>(real (digits_value a) + real (digits_value b)) / 2 + 1 / 2\<rfloor>))"
proof -
  have "(10::nat) ^ length a \<le> 10 ^ 15" "(10::nat) ^ length b \<le> 10 ^ 15"
    using assms(3,6) by (intro power_increasing; simp)+
  with digits_value_bound[OF assms(2)] digits_value_bound[OF assms(5)]
  have le: "digits_value a + digits_value b \<le> 2 ^ 53" by simp
  then have s: "is_double (real (digits_value a) + real (digits_value b))"
    using is_double_nat[of "digits_value a + digits_value b"] by simp
  from is_double_dyadic[OF int_le_2_53[OF le], of 1]
  have h: "is_double ((real (digits_value a) + real (digits_value b)) / 2)" by simp
  show ?thesis
    by (rule midpoint_exact[OF Number_short_digit_string[OF assms(1-3)]
          Number_short_digit_string[OF assms(4-6)] s h])
qed

text \<open>
  Claim C3. For every string, \<open>parseNutritionNumber\<close> computes the algorithm of the
  specification: replace the commas by periods; if the string contains a range
  \<open>A sep B\<close> (decimals, optional white space around a hyphen, an en dash, an em dash or
  the word \<open>to\<close> in any case), return \<open>max(0, round((A + B) / 2))\<close> for the first
  one; otherwise return \<open>max(0, round(x))\<close> for the first signed or unsigned integer or
  decimal \<open>x\<close> in the string, and 0 when there is none. The arithmetic is that of
  JavaScript numbers on both sides. Neither end point of a range nor the first number ever
  converts to \<open>NaN\<close>, so the range is used whenever one is found. Where the two end
  points, their sum and its half are doubles, as for digit strings of up to 15 digits, the
  result is the exact \<open>max(0, round((A + B) / 2))\<close>. Hence \<open>200-300\<close> gives 250,
  \<open>50 to 100\<close> gives 75, \<open>100\<close>, en dash, \<open>200\<close> gives 150, \<open>100,5\<close> gives 101,
  \<open>123,45\<close> gives 123, \<open>100 kcal\<close> gives 100 and \<open>~50g\<close> gives 50;
  \<open>2.4999999999999999999\<close> is read as the double 2.5 and gives 3.
\<close>

theorem parseNutritionNumber_refines_specification:
  "(\<forall>str. parseNutritionNumber (Str str) = spec_parse_string str)
   \<and> (\<forall>u a b. range_at u = Some (a, b) \<longrightarrow>
          \<not> isNaN (Number_string a) \<and> \<not> isNaN (Number_string b))
   \<and> (\<forall>u t. number_at u = Some t \<longrightarrow> \<not> isNaN (Number_string t))
   \<and> (\<forall>a b x y. Number_string a = Fin x \<and> Number_string b = Fin y
          \<and> is_double (x + y) \<and> is_double ((x + y) / 2) \<longrightarrow>
          midpoint a b = Fin (max 0 (real_of_int \<lfloor>(x + y) / 2 + 1 / 2\<rfloor>)))
   \<and> (\<forall>a b. a \<noteq> [] \<and> list_all is_digit a \<and> length a \<le> 15
          \<and> b \<noteq> [] \<and> list_all is_digit b \<and> length b \<le> 15 \<longrightarrow>
          midpoint a b
            = Fin (max 0 (real_of_int
                 \<lfloor>(real (digits_value a) + real (digits_value b)) / 2 + 1 / 2\<rfloor>)))
   \<and> parseNutritionNumber (Str (ascii ''200-300'')) = Fin 250
   \<and> parseNutritionNumber (Str (ascii ''50 to 100'')) = Fin 75
   \<and> parseNutritionNumber (Str (ascii ''100 '' @ [8211] @ ascii '' 200'')) = Fin 150
   \<and> parseNutritionNumber (Str (ascii ''100,5'')) = Fin 101
   \<and> parseNutritionNumber (Str (ascii ''123,45'')) = Fin 123
   \<and> parseNutritionNumber (Str (ascii ''100 kcal'')) = Fin 100
   \<and> parseNutritionNumber (Str (ascii ''~50g'')) = Fin 50
   \<and> parseNutritionNumber (Str (ascii ''2.4999999999999999999'')) = Fin 3"
proof (intro conjI allI impI; (elim conjE)?)
  fix str show "parseNutritionNumber (Str str) = spec_parse_string str"
    by (rule parse_string_spec)
next
  fix u a b assume "range_at u = Some (a, b)"
  from range_at_numbers[OF this]
  show "\<not> isNaN (Number_string a)" and "\<not> isNaN (Number_string b)"
    by (blast dest: js_le_not_NaN)+
next
  fix u t assume "number_at u = Some t"
  then show "\<not> isNaN (Number_string t)" by (rule Number_number_at)
next
  fix a b x y
  assume "Number_string a = Fin x" "Number_string b = Fin y"
    "is_double (x + y)" "is_double ((x + y) / 2)"
  then show "midpoint a b = Fin (max 0 (real_of_int \<lfloor>(x + y) / 2 + 1 / 2\<rfloor>))"
    by (rule midpoint_exact)
next
  fix a b :: ustring
  assume "a \<noteq> []" "list_all is_digit a" "length a \<le> 15"
    "b \<noteq> []" "list_all is_digit b" "length b \<le> 15"
  then show "midpoint a b
            = Fin (max 0 (real_of_int
                 \<lfloor>(real (digits_value a) + real (digits_value b)) / 2 + 1 / 2\<rfloor>))"
    by (intro midpoint_short_digit_strings) (simp_all add: list_all_iff)
qed (rule parse_example_range_hyphen parse_example_range_to parse_example_range_en_dash
       parse_example_comma_half parse_example_comma_decimal parse_example_unit
       parse_example_tilde parse_example_rounds_up)+

lemmas scan_eval = range_at_def decimal_at_def after_separator_def separator_at_def
  number_at_def is_sign_def starts_def is_digit_def is_space_def white_space_def ascii_def
  Number_string_def Number_unsigned_def digits_value_def midpoint_def Let_def

theorem parseNutritionNumber_refines_specification_witness:
  "range_at (ascii ''200 - 300 kcal'') = Some (ascii ''200'', ascii ''300'')
   \<and> \<not> isNaN (Number_string (ascii ''200'')) \<and> \<not> isNaN (Number_string (ascii ''300''))
   \<and> ascii ''200'' \<noteq> [] \<and> list_all is_digit (ascii ''200'') \<and> length (ascii ''200'') \<le> 15
   \<and> ascii ''300'' \<noteq> [] \<and> list_all is_digit (ascii ''300'') \<and> length (ascii ''300'') \<le> 15
   \<and> midpoint (ascii ''200'') (ascii ''300'') = Fin 250
   \<and> number_at (ascii ''12.5g'') = Some (ascii ''12.5'')
   \<and> \<not> isNaN (Number_string (ascii ''12.5''))
   \<and> Number_string (ascii ''12.5'') = Fin (25 / 2)
   \<and> parseNutritionNumber (Str (ascii ''12.5g'')) = spec_parse_string (ascii ''12.5g'')"
proof -
  note claim = parseNutritionNumber_refines_specification
  have r: "range_at (ascii ''200 - 300 kcal'') = Some (ascii ''200'', ascii ''300'')"
    by (simp add: scan_eval)
  have n: "number_at (ascii ''12.5g'') = Some (ascii ''12.5'')"
    by (simp add: scan_eval)
  have v: "Number_string (ascii ''12.5'') = Fin (25 / 2)"
    by (simp add: scan_eval to_double_half_25)
  have d: "ascii ''200'' \<noteq> [] \<and> list_all is_digit (ascii ''200'') \<and> length (ascii ''200'') \<le> 15
      \<and> ascii ''300'' \<noteq> [] \<and> list_all is_digit (ascii ''300'') \<and> length (ascii ''300'') \<le> 15"
    by (simp add: ascii_def is_digit_def)
  note nn = claim[THEN conjunct2, THEN conjunct1, THEN spec, THEN spec, THEN spec, THEN mp, OF r]
  note fn = claim[THEN conjunct2, THEN conjunct2, THEN conjunct1, THEN spec, THEN spec,
      THEN mp, OF n]
  from claim[THEN conjunct2, THEN conjunct2, THEN conjunct2, THEN conjunct2, THEN conjunct1,
      THEN spec, THEN spec, THEN mp, OF d]
  have m: "midpoint (ascii ''200'') (ascii ''300'') = Fin 250"
    by (simp add: ascii_def digits_value_def)
  from r nn d m n fn v claim[THEN conjunct1, THEN spec, of "ascii ''12.5g''"]
  show ?thesis by simp
qed

subsection \<open>Claim C10: every comma becomes a period\<close>





subsection \<open>Claim C7: text extraction leaves fiber out\<close>

lemma extract_no_fiber: "fiber (extractNutritionFromText str) = None"
  by (simp add: extractNutritionFromText_def Let_def)

lemmas extract_eval = extractNutritionFromText_def searchNumber_def nonempty_group1_def
  key_re_def unit_re_def quantity_def short_decimal_def one_to_four_def or_default_def
  numeral_3_eq_3

text \<open>
  Claim C7 says that \<open>extractNutritionFromText\<close> searches all five canonical nutrients
  and that an unmatched one is 0 in the result. The source searches four: it never looks for
  fiber, and the record it returns has no \<open>fiber\<close> field, for every text; on
  \<open>Fiber: 5g\<close> it returns four zeros and no fiber. (The sibling extraction in the
  nutrition-ai edge function does search \<open>fiber\<close>, \<open>serat\<close> and \<open>fiber_g\<close>.)
\<close>

theorem extractNutritionFromText_omits_fiber:
  "(\<forall>str. fiber (extractNutritionFromText str) = None)
   \<and> extractNutritionFromText (ascii ''Fiber: 5g'')
       = \<lparr> calories = Fin 0, protein = Fin 0, carbs = Fin 0, fat = Fin 0, fiber = None \<rparr>"
proof (intro conjI allI)
  fix str show "fiber (extractNutritionFromText str) = None" by (rule extract_no_fiber)
next
  show "extractNutritionFromText (ascii ''Fiber: 5g'')
       = \<lparr> calories = Fin 0, protein = Fin 0, carbs = Fin 0, fat = Fin 0, fiber = None \<rparr>"
    by (simp add: extract_eval parse_eval)
qed

end
